theory Spec2Isabelle
  imports Complex_Main "HOL-Library.Word"
begin

section \<open>Flood propagation of simulacion.py\<close>

text \<open>
  The theory embeds \<^verbatim>\<open>propagar_inundacion\<close> (simulacion.py, lines 252-300) and the
  two lines of the simulation loop that call it and apply the basin mask (lines 324-330).
  A numpy array of two dimensions is a list of rows and indices are Python integers.
  Every array access of the source goes through an index resolution that can fail, so an
  IndexError of the source is a value of the model. The elevations have the element type
  of the array, and the sum and the two comparisons of the admission test are those of
  that type: they are a parameter of the model (\<open>aritmetica\<close>), so that a statement holds
  for float32, float64 and integer grids alike, or says which arithmetic it needs.
\<close>

subsection \<open>Errors and sequencing\<close>

datatype error = IndexError | ValueError

definition rbind :: "error + 'a \<Rightarrow> ('a \<Rightarrow> error + 'b) \<Rightarrow> error + 'b" where
  "rbind m f = (case m of Inl e \<Rightarrow> Inl e | Inr v \<Rightarrow> f v)"

text \<open>A \<^verbatim>\<open>for\<close> loop over a list whose body may raise: the first error ends the loop.\<close>

fun iterar :: "('a \<Rightarrow> 's \<Rightarrow> error + 's) \<Rightarrow> 'a list \<Rightarrow> 's \<Rightarrow> error + 's" where
  "iterar f [] s = Inr s"
| "iterar f (a # as) s = rbind (f a s) (iterar f as)"

subsection \<open>Arrays\<close>

type_synonym 'a ndarray = "'a list list"
type_synonym punto = "int \<times> int"
type_synonym indexador = "nat \<Rightarrow> int \<Rightarrow> error + nat"

definition shape :: "'a ndarray \<Rightarrow> nat \<times> nat" where
  "shape a = (length a, case a of [] \<Rightarrow> 0 | r # _ \<Rightarrow> length r)"

text \<open>Every numpy array is rectangular: all rows have \<^verbatim>\<open>shape[1]\<close> entries.\<close>

definition rectangular :: "'a ndarray \<Rightarrow> bool" where
  "rectangular a = list_all (\<lambda>r. length r = snd (shape a)) a"

text \<open>
  numpy resolves an index \<open>i\<close> against an axis of length \<open>n\<close>: an index in \<open>[0, n)\<close> is
  itself, an index in \<open>[-n, 0)\<close> counts from the end, anything else raises IndexError.
\<close>

definition py_index :: indexador where
  "py_index n i =
     (if 0 \<le> i \<and> i < int n then Inr (nat i)
      else if - int n \<le> i \<and> i < 0 then Inr (nat (int n + i))
      else Inl IndexError)"

text \<open>
  \<^verbatim>\<open>a[y, x]\<close> and \<^verbatim>\<open>a[y, x] = v\<close>. The index resolution is a parameter, so that a
  statement can range over what an access outside \<open>[0, n)\<close> would do.
\<close>

definition getitem :: "indexador \<Rightarrow> 'a ndarray \<Rightarrow> int \<Rightarrow> int \<Rightarrow> error + 'a" where
  "getitem idx a y x =
     rbind (idx (fst (shape a)) y) (\<lambda>i.
     rbind (idx (snd (shape a)) x) (\<lambda>j.
     Inr (a ! i ! j)))"

definition setitem :: "indexador \<Rightarrow> 'a ndarray \<Rightarrow> int \<Rightarrow> int \<Rightarrow> 'a \<Rightarrow> error + 'a ndarray" where
  "setitem idx a y x v =
     rbind (idx (fst (shape a)) y) (\<lambda>i.
     rbind (idx (snd (shape a)) x) (\<lambda>j.
     Inr (a[i := (a ! i)[j := v]])))"

text \<open>\<^verbatim>\<open>np.zeros_like(dem, dtype=bool)\<close>\<close>

definition zeros_like :: "'a ndarray \<Rightarrow> bool ndarray" where
  "zeros_like a = map (map (\<lambda>_. False)) a"

text \<open>\<^verbatim>\<open>list(zip(*np.where(semillas)))\<close>: the coordinates of the true cells, row by row.\<close>

definition np_where :: "bool ndarray \<Rightarrow> punto list" where
  "np_where m =
     concat (map (\<lambda>y. map (\<lambda>x. (int y, int x)) (filter (\<lambda>x. m ! y ! x) [0..<length (m ! y)]))
                 [0..<length m])"

text \<open>\<^verbatim>\<open>inundacion.astype(np.uint8)\<close>\<close>

definition astype_uint8 :: "bool ndarray \<Rightarrow> 8 word ndarray" where
  "astype_uint8 a = map (map (\<lambda>b. if b then 1 else 0)) a"

text \<open>
  \<^verbatim>\<open>a * b\<close> on two arrays of uint8: numpy broadcasts an axis of length 1 against the
  other array's axis and raises ValueError when the axes differ otherwise.
\<close>

definition broadcast_dim :: "nat \<Rightarrow> nat \<Rightarrow> nat option" where
  "broadcast_dim m n =
     (if m = n then Some m else if m = 1 then Some n else if n = 1 then Some m else None)"

definition broadcast_get :: "'a ndarray \<Rightarrow> nat \<Rightarrow> nat \<Rightarrow> 'a" where
  "broadcast_get a y x =
     a ! (if fst (shape a) = 1 then 0 else y) ! (if snd (shape a) = 1 then 0 else x)"

definition multiply :: "8 word ndarray \<Rightarrow> 8 word ndarray \<Rightarrow> error + 8 word ndarray" where
  "multiply a b =
     (case (broadcast_dim (fst (shape a)) (fst (shape b)),
            broadcast_dim (snd (shape a)) (snd (shape b))) of
        (Some r, Some c) \<Rightarrow>
          Inr (map (\<lambda>y. map (\<lambda>x. broadcast_get a y x * broadcast_get b y x) [0..<c]) [0..<r])
      | _ \<Rightarrow> Inl ValueError)"

subsection \<open>The arithmetic of the elevations\<close>

text \<open>
  The function computes with the elements of \<^verbatim>\<open>dem\<close> in three places, and numpy
  evaluates each in the type that the array's dtype and the Python type of the level
  give: \<open>mas e nivel\<close> is \<^verbatim>\<open>dem[y, x] + nivel_agua\<close> (line 272), \<open>no_supera v h\<close> is
  \<^verbatim>\<open>dem[ny, nx] <= elev_actual\<close> (line 287) and \<open>no_cae v e\<close> is
  \<^verbatim>\<open>dem[ny, nx] >= dem[y, x] - 1.0\<close> (line 288). \<open>'e\<close> is the type of the elements and
  \<open>'h\<close> the type of the sum.
\<close>

datatype ('e, 'h) aritmetica =
  Aritmetica (mas: "'e \<Rightarrow> real \<Rightarrow> 'h") (no_supera: "'e \<Rightarrow> 'h \<Rightarrow> bool")
    (no_cae: "'e \<Rightarrow> 'e \<Rightarrow> bool")

text \<open>
  Arithmetic without rounding: the real numbers. Every floating-point format agrees with
  it where the elevations, the level, the sum and the difference are values of the format,
  as they are in the concrete grids of this theory (small integers and halves).
\<close>

definition exacta :: "(real, real) aritmetica" where
  "exacta = Aritmetica (\<lambda>e nivel. e + nivel) (\<lambda>v h. v \<le> h) (\<lambda>v e. v \<ge> e - 1)"

text \<open>
  Floating-point arithmetic on finite values: the sum and the difference are rounded to
  the format by \<open>fl\<close>, the comparisons are exact.
\<close>

definition redondeada :: "(real \<Rightarrow> real) \<Rightarrow> (real, real) aritmetica" where
  "redondeada fl = Aritmetica (\<lambda>e nivel. fl (e + nivel)) (\<lambda>v h. v \<le> h) (\<lambda>v e. v \<ge> fl (e - 1))"

text \<open>
  A grid of uint8 with the level passed as a Python integer, under the promotion rules of
  NumPy 2: the sum stays in uint8 and wraps around at 256, while \<^verbatim>\<open>- 1.0\<close> promotes
  the difference to float64, where it is exact.
\<close>

definition uint8_entero :: "(8 word, 8 word) aritmetica" where
  "uint8_entero =
     Aritmetica (\<lambda>e nivel. e + word_of_int \<lfloor>nivel\<rfloor>) (\<lambda>v h. v \<le> h)
       (\<lambda>v e. real (unat v) \<ge> real (unat e) - 1)"

text \<open>An arithmetic is monotone in the level when a higher level never lowers the head.\<close>

definition monotona :: "('e, 'h) aritmetica \<Rightarrow> bool" where
  "monotona ar =
     (\<forall>e v nivel1 nivel2. nivel1 \<le> nivel2 \<longrightarrow> no_supera ar v (mas ar e nivel1) \<longrightarrow>
        no_supera ar v (mas ar e nivel2))"

subsection \<open>propagar\_inundacion\<close>

text \<open>
  The admission test of lines 285-289. Python's \<^verbatim>\<open>and\<close> evaluates left to right and
  stops at the first false operand, so the reads of \<^verbatim>\<open>dem\<close> happen only when needed.
\<close>

definition condicion ::
  "('e, 'h) aritmetica \<Rightarrow> indexador \<Rightarrow> 'e ndarray \<Rightarrow> 'h \<Rightarrow> int \<Rightarrow> int \<Rightarrow> int \<Rightarrow> int \<Rightarrow>
     bool ndarray \<Rightarrow> error + bool" where
  "condicion ar idx dem elev_actual y x ny nx inundacion =
     rbind (getitem idx inundacion ny nx) (\<lambda>mojada.
     if mojada then Inr False
     else rbind (getitem idx dem ny nx) (\<lambda>e1.
       if \<not> no_supera ar e1 elev_actual then Inr False
       else rbind (getitem idx dem ny nx) (\<lambda>e2.
            rbind (getitem idx dem y x) (\<lambda>e0.
            Inr (no_cae ar e2 e0)))))"

text \<open>The body of the two innermost loops (lines 277-293) for one offset \<open>(dy, dx)\<close>.\<close>

definition vecino ::
  "('e, 'h) aritmetica \<Rightarrow> indexador \<Rightarrow> 'e ndarray \<Rightarrow> 'h \<Rightarrow> int \<Rightarrow> int \<Rightarrow> int \<Rightarrow> int \<Rightarrow>
     bool ndarray \<times> punto list \<Rightarrow> error + (bool ndarray \<times> punto list)" where
  "vecino ar idx dem elev_actual y x dy dx st =
     (case st of (inundacion, nuevos_puntos) \<Rightarrow>
      if dy = 0 \<and> dx = 0 then Inr (inundacion, nuevos_puntos)
      else
        let ny = y + dy; nx = x + dx in
        if 0 \<le> ny \<and> ny < int (fst (shape dem)) \<and> 0 \<le> nx \<and> nx < int (snd (shape dem)) then
          rbind (condicion ar idx dem elev_actual y x ny nx inundacion) (\<lambda>c.
          if c then
            rbind (setitem idx inundacion ny nx True) (\<lambda>inundacion'.
            Inr (inundacion', nuevos_puntos @ [(ny, nx)]))
          else Inr (inundacion, nuevos_puntos))
        else Inr (inundacion, nuevos_puntos))"

text \<open>The body of the loop over \<^verbatim>\<open>puntos_activos\<close> (lines 270-293) for one active point.\<close>

definition punto_activo ::
  "('e, 'h) aritmetica \<Rightarrow> indexador \<Rightarrow> 'e ndarray \<Rightarrow> real \<Rightarrow> punto \<Rightarrow>
     bool ndarray \<times> punto list \<Rightarrow> error + (bool ndarray \<times> punto list)" where
  "punto_activo ar idx dem nivel_agua p st =
     (case p of (y, x) \<Rightarrow>
      rbind (getitem idx dem y x) (\<lambda>e.
      let elev_actual = mas ar e nivel_agua in
      iterar (\<lambda>dy. iterar (\<lambda>dx. vecino ar idx dem elev_actual y x dy dx) [-1, 0, 1]) [-1, 0, 1] st))"

text \<open>One iteration of the outer loop up to the assignment of line 295.\<close>

definition ronda ::
  "('e, 'h) aritmetica \<Rightarrow> indexador \<Rightarrow> 'e ndarray \<Rightarrow> real \<Rightarrow> punto list \<Rightarrow> bool ndarray \<Rightarrow>
     error + (bool ndarray \<times> punto list)" where
  "ronda ar idx dem nivel_agua puntos_activos inundacion =
     iterar (punto_activo ar idx dem nivel_agua) puntos_activos (inundacion, [])"

text \<open>
  \<^verbatim>\<open>for iteracion in range(pasos)\<close> with its \<^verbatim>\<open>break\<close> on an empty list of new
  points; the first argument counts the iterations that remain.
\<close>

fun bucle ::
  "('e, 'h) aritmetica \<Rightarrow> indexador \<Rightarrow> 'e ndarray \<Rightarrow> real \<Rightarrow> nat \<Rightarrow> bool ndarray \<Rightarrow> punto list \<Rightarrow>
     error + bool ndarray" where
  "bucle ar idx dem nivel_agua 0 inundacion puntos_activos = Inr inundacion"
| "bucle ar idx dem nivel_agua (Suc k) inundacion puntos_activos =
     rbind (ronda ar idx dem nivel_agua puntos_activos inundacion) (\<lambda>(inundacion', nuevos_puntos).
     if nuevos_puntos = [] then Inr inundacion'
     else bucle ar idx dem nivel_agua k inundacion' nuevos_puntos)"

text \<open>Lines 260-264: every seed is marked before the first round.\<close>

definition marcar_semillas :: "indexador \<Rightarrow> bool ndarray \<Rightarrow> punto list \<Rightarrow> error + bool ndarray" where
  "marcar_semillas idx inundacion puntos_activos =
     iterar (\<lambda>p inu. case p of (y, x) \<Rightarrow> setitem idx inu y x True) puntos_activos inundacion"

text \<open>
  The state of the function after its loop: the boolean array \<^verbatim>\<open>inundacion\<close>.
  \<^verbatim>\<open>range(pasos)\<close> is empty for \<open>pasos \<le> 0\<close>.
\<close>

definition propagar_bool ::
  "('e, 'h) aritmetica \<Rightarrow> indexador \<Rightarrow> 'e ndarray \<Rightarrow> bool ndarray \<Rightarrow> real \<Rightarrow> int \<Rightarrow>
     error + bool ndarray" where
  "propagar_bool ar idx dem semillas nivel_agua pasos =
     (let puntos_activos = np_where semillas in
      rbind (marcar_semillas idx (zeros_like dem) puntos_activos) (\<lambda>inundacion.
      bucle ar idx dem nivel_agua (nat pasos) inundacion puntos_activos))"

definition propagar_con ::
  "('e, 'h) aritmetica \<Rightarrow> indexador \<Rightarrow> 'e ndarray \<Rightarrow> bool ndarray \<Rightarrow> real \<Rightarrow> int \<Rightarrow>
     error + 8 word ndarray" where
  "propagar_con ar idx dem semillas nivel_agua pasos =
     rbind (propagar_bool ar idx dem semillas nivel_agua pasos) (\<lambda>inundacion.
     Inr (astype_uint8 inundacion))"

definition propagar_inundacion ::
  "('e, 'h) aritmetica \<Rightarrow> 'e ndarray \<Rightarrow> bool ndarray \<Rightarrow> real \<Rightarrow> int \<Rightarrow> error + 8 word ndarray" where
  "propagar_inundacion ar = propagar_con ar py_index"

subsection \<open>The simulation loop (PASO 6)\<close>

text \<open>
  Lines 327-330 for one level: the propagation, then the product with the basin mask.
  The script passes \<^verbatim>\<open>pasos=100\<close>; the budget is a parameter here.
\<close>

definition extension ::
  "('e, 'h) aritmetica \<Rightarrow> 'e ndarray \<Rightarrow> bool ndarray \<Rightarrow> 8 word ndarray \<Rightarrow> real \<Rightarrow> int \<Rightarrow>
     error + 8 word ndarray" where
  "extension ar dem semillas cuenca_mask nivel pasos =
     rbind (propagar_inundacion ar dem semillas nivel pasos) (\<lambda>inundacion.
     multiply inundacion cuenca_mask)"

text \<open>Lines 324-330 as the script runs them, from the rasterised river mask.\<close>

definition paso6_nivel ::
  "('e, 'h) aritmetica \<Rightarrow> 'e ndarray \<Rightarrow> 8 word ndarray \<Rightarrow> 8 word ndarray \<Rightarrow> real \<Rightarrow>
     error + 8 word ndarray" where
  "paso6_nivel ar dem rio_mask cuenca_mask nivel =
     (let semillas = map (map (\<lambda>v. v = 1)) rio_mask in
      extension ar dem semillas cuenca_mask nivel 100)"

subsection \<open>Arrays as sets of cells\<close>

text \<open>
  The proofs read an array through the set of its cells: \<open>dentro a\<close> is the set of the
  coordinates inside the bounds of \<open>a\<close>, \<open>mojadas a\<close> the set of the true cells of a
  boolean array. \<open>idx_ok\<close> says that an index resolution agrees with numpy inside
  \<open>[0, n)\<close> and leaves open what it does outside. \<open>admitidos dem nivel c\<close> is the set
  of the neighbours of \<open>c\<close> that pass the bounds test of line 283 and the two elevation
  tests of lines 287-288.
\<close>

definition idx_ok :: "indexador \<Rightarrow> bool" where
  "idx_ok idx = (\<forall>n i. 0 \<le> i \<and> i < int n \<longrightarrow> idx n i = Inr (nat i))"

definition dentro :: "'a ndarray \<Rightarrow> punto set" where
  "dentro a = {(y, x). 0 \<le> y \<and> y < int (fst (shape a)) \<and> 0 \<le> x \<and> x < int (snd (shape a))}"

definition celda :: "'a ndarray \<Rightarrow> punto \<Rightarrow> 'a" where
  "celda a p = a ! nat (fst p) ! nat (snd p)"

definition mojadas :: "bool ndarray \<Rightarrow> punto set" where
  "mojadas a = {p \<in> dentro a. celda a p}"

definition conforme :: "'a ndarray \<Rightarrow> 'b ndarray \<Rightarrow> bool" where
  "conforme a b = (map length a = map length b)"

text \<open>
  \<open>paso_adm\<close> is the part of \<open>admitidos\<close> that one offset \<open>(dy, dx)\<close> of the two inner loops
  contributes. \<open>avance dem P st st'\<close> describes a stretch of a round that examined the
  candidates \<open>P\<close>: they are flooded afterwards, and those that were dry before are the new
  points. \<open>frente\<close> collects the admitted neighbours of a set of active points,
  \<open>ronda_conj\<close> is one round on the pair of the flooded set and the set of active points,
  and \<open>expandir\<close> is one step of the closure of a flooded set under the admission rule.
\<close>

definition paso_adm :: "('e, 'h) aritmetica \<Rightarrow> 'e ndarray \<Rightarrow> real \<Rightarrow> punto \<Rightarrow> int \<Rightarrow> int \<Rightarrow> punto set" where
  "paso_adm ar dem nivel c dy dx =
     {n. n = (fst c + dy, snd c + dx) \<and> \<not> (dy = 0 \<and> dx = 0) \<and> n \<in> dentro dem \<and>
         no_supera ar (celda dem n) (mas ar (celda dem c) nivel) \<and>
         no_cae ar (celda dem n) (celda dem c)}"

definition admitidos :: "('e, 'h) aritmetica \<Rightarrow> 'e ndarray \<Rightarrow> real \<Rightarrow> punto \<Rightarrow> punto set" where
  "admitidos ar dem nivel c =
     {n \<in> dentro dem. n \<noteq> c \<and> \<bar>fst n - fst c\<bar> \<le> 1 \<and> \<bar>snd n - snd c\<bar> \<le> 1 \<and>
         no_supera ar (celda dem n) (mas ar (celda dem c) nivel) \<and>
         no_cae ar (celda dem n) (celda dem c)}"

definition avance ::
  "'e ndarray \<Rightarrow> punto set \<Rightarrow> bool ndarray \<times> punto list \<Rightarrow> bool ndarray \<times> punto list \<Rightarrow> bool" where
  "avance dem P st st' =
     (conforme (fst st') dem \<and> mojadas (fst st') = mojadas (fst st) \<union> P \<and>
      set (snd st') = set (snd st) \<union> (P - mojadas (fst st)))"

definition frente :: "('e, 'h) aritmetica \<Rightarrow> 'e ndarray \<Rightarrow> real \<Rightarrow> punto set \<Rightarrow> punto set" where
  "frente ar dem nivel A = (\<Union>c\<in>A. admitidos ar dem nivel c)"

definition ronda_conj ::
  "('e, 'h) aritmetica \<Rightarrow> 'e ndarray \<Rightarrow> real \<Rightarrow> punto set \<times> punto set \<Rightarrow> punto set \<times> punto set" where
  "ronda_conj ar dem nivel st =
     (fst st \<union> frente ar dem nivel (snd st), frente ar dem nivel (snd st) - fst st)"

definition expandir :: "('e, 'h) aritmetica \<Rightarrow> 'e ndarray \<Rightarrow> real \<Rightarrow> punto set \<Rightarrow> punto set" where
  "expandir ar dem nivel F = F \<union> frente ar dem nivel F"

text \<open>
  The barrier scenario of the specification (section 8, item 7): a grid of 5 by 5 cells of
  elevation 0 whose column 3 has elevation 100, and the single seed \<open>(2, 0)\<close>.
\<close>

definition dem7 :: "real ndarray" where
  "dem7 = [[0, 0, 0, 100, 0], [0, 0, 0, 100, 0], [0, 0, 0, 100, 0], [0, 0, 0, 100, 0],
           [0, 0, 0, 100, 0]]"

definition sem7 :: "bool ndarray" where
  "sem7 = [[False, False, False, False, False], [False, False, False, False, False],
           [True, False, False, False, False], [False, False, False, False, False],
           [False, False, False, False, False]]"

subsection \<open>Chains of admissions and seed reuse, as the specification words them\<close>

text \<open>
  \<open>cadena dem semillas nivel i c ns\<close> says that \<open>ns\<close> is a chain of admissions that starts
  from the cell \<open>c\<close>, flooded in round \<open>i\<close>: each next cell is a different cell among the
  8 neighbours, inside the grid, not flooded in the grid that the function returns with a
  budget of as many rounds as came before (\<open>inundada_tras\<close>), and within the two elevation
  tests of the admission rule, evaluated in the arithmetic of the elevations.
  \<open>reusar_semillas\<close> is the seed mask of the optimisation that
  the specification allows: the original seeds joined with the cells of an earlier extent.
\<close>

definition inundada_tras ::
  "('e, 'h) aritmetica \<Rightarrow> 'e ndarray \<Rightarrow> bool ndarray \<Rightarrow> real \<Rightarrow> nat \<Rightarrow> punto \<Rightarrow> bool" where
  "inundada_tras ar dem semillas nivel i n =
     (case propagar_inundacion ar dem semillas nivel (int i) of
        Inl _ \<Rightarrow> False
      | Inr g \<Rightarrow> celda g n \<noteq> 0)"

definition paso_cadena ::
  "('e, 'h) aritmetica \<Rightarrow> 'e ndarray \<Rightarrow> bool ndarray \<Rightarrow> real \<Rightarrow> nat \<Rightarrow> punto \<Rightarrow> punto \<Rightarrow> bool" where
  "paso_cadena ar dem semillas nivel i c n =
     (n \<in> dentro dem \<and> n \<noteq> c \<and> \<bar>fst n - fst c\<bar> \<le> 1 \<and> \<bar>snd n - snd c\<bar> \<le> 1 \<and>
      \<not> inundada_tras ar dem semillas nivel i n \<and>
      no_supera ar (celda dem n) (mas ar (celda dem c) nivel) \<and>
      no_cae ar (celda dem n) (celda dem c))"

fun cadena ::
  "('e, 'h) aritmetica \<Rightarrow> 'e ndarray \<Rightarrow> bool ndarray \<Rightarrow> real \<Rightarrow> nat \<Rightarrow> punto \<Rightarrow> punto list \<Rightarrow> bool" where
  "cadena ar dem semillas nivel i c [] = True"
| "cadena ar dem semillas nivel i c (n # ns) =
     (paso_cadena ar dem semillas nivel i c n \<and> cadena ar dem semillas nivel (Suc i) n ns)"

definition reusar_semillas :: "bool ndarray \<Rightarrow> 8 word ndarray \<Rightarrow> bool ndarray" where
  "reusar_semillas semillas e = map2 (map2 (\<lambda>s v. s \<or> v \<noteq> 0)) semillas e"

subsection \<open>The function on a store of arrays\<close>

text \<open>
  numpy arrays are mutable objects that the function receives by reference. To state
  what a call changes, the function is written a second time over a store: one region of
  arrays per element type (elevation grids, boolean arrays, arrays of bytes), a reference
  being an index into its region. \<^verbatim>\<open>np.zeros_like\<close>
  and \<^verbatim>\<open>astype\<close> allocate a new array at the end of a region, \<^verbatim>\<open>a[y, x] = v\<close>
  replaces the array at its reference, and a program returns the store it reached together
  with its value or its error. The lists \<^verbatim>\<open>puntos_activos\<close> and \<^verbatim>\<open>nuevos_puntos\<close> are local
  to the call and stay values. \<open>refina\<close> and \<open>refina0\<close> relate a run on the store to the run
  of the functions above on the arrays' values: the store changes at one boolean array only.
\<close>

record 'e memoria =
  elevaciones :: "'e ndarray list"
  booleanos :: "bool ndarray list"
  bytes :: "8 word ndarray list"

type_synonym ref = nat
type_synonym ('e, 'a) prog = "'e memoria \<Rightarrow> (error + 'a) \<times> 'e memoria"

definition devolver :: "'a \<Rightarrow> ('e, 'a) prog" where
  "devolver v h = (Inr v, h)"

definition seguir :: "('e, 'a) prog \<Rightarrow> ('a \<Rightarrow> ('e, 'b) prog) \<Rightarrow> ('e, 'b) prog" where
  "seguir m f h = (case m h of (Inl e, h') \<Rightarrow> (Inl e, h') | (Inr v, h') \<Rightarrow> f v h')"

fun iterar_mem :: "('a \<Rightarrow> 's \<Rightarrow> ('e, 's) prog) \<Rightarrow> 'a list \<Rightarrow> 's \<Rightarrow> ('e, 's) prog" where
  "iterar_mem f [] s = devolver s"
| "iterar_mem f (a # as) s = seguir (f a s) (iterar_mem f as)"

definition leer_elev :: "ref \<Rightarrow> int \<Rightarrow> int \<Rightarrow> ('e, 'e) prog" where
  "leer_elev r y x h = (getitem py_index (elevaciones h ! r) y x, h)"

definition leer_bool :: "ref \<Rightarrow> int \<Rightarrow> int \<Rightarrow> ('e, bool) prog" where
  "leer_bool r y x h = (getitem py_index (booleanos h ! r) y x, h)"

definition escribir_bool :: "ref \<Rightarrow> int \<Rightarrow> int \<Rightarrow> bool \<Rightarrow> ('e, unit) prog" where
  "escribir_bool r y x v h =
     (case setitem py_index (booleanos h ! r) y x v of
        Inl e \<Rightarrow> (Inl e, h)
      | Inr a \<Rightarrow> (Inr (), h\<lparr>booleanos := (booleanos h)[r := a]\<rparr>))"

definition nuevo_bool :: "bool ndarray \<Rightarrow> ('e, ref) prog" where
  "nuevo_bool a h = (Inr (length (booleanos h)), h\<lparr>booleanos := booleanos h @ [a]\<rparr>)"

definition nuevo_bytes :: "8 word ndarray \<Rightarrow> ('e, ref) prog" where
  "nuevo_bytes a h = (Inr (length (bytes h)), h\<lparr>bytes := bytes h @ [a]\<rparr>)"

definition condicion_mem ::
  "('e, 'h) aritmetica \<Rightarrow> ref \<Rightarrow> ref \<Rightarrow> 'h \<Rightarrow> int \<Rightarrow> int \<Rightarrow> int \<Rightarrow> int \<Rightarrow> ('e, bool) prog" where
  "condicion_mem ar dem inundacion elev_actual y x ny nx =
     seguir (leer_bool inundacion ny nx) (\<lambda>mojada.
     if mojada then devolver False
     else seguir (leer_elev dem ny nx) (\<lambda>e1.
       if \<not> no_supera ar e1 elev_actual then devolver False
       else seguir (leer_elev dem ny nx) (\<lambda>e2.
            seguir (leer_elev dem y x) (\<lambda>e0.
            devolver (no_cae ar e2 e0)))))"

definition vecino_mem ::
  "('e, 'h) aritmetica \<Rightarrow> ref \<Rightarrow> ref \<Rightarrow> 'h \<Rightarrow> int \<Rightarrow> int \<Rightarrow> int \<Rightarrow> int \<Rightarrow> punto list \<Rightarrow>
     ('e, punto list) prog" where
  "vecino_mem ar dem inundacion elev_actual y x dy dx nuevos_puntos =
     (if dy = 0 \<and> dx = 0 then devolver nuevos_puntos
      else
        let ny = y + dy; nx = x + dx in
        (\<lambda>h.
          (if 0 \<le> ny \<and> ny < int (fst (shape (elevaciones h ! dem))) \<and>
              0 \<le> nx \<and> nx < int (snd (shape (elevaciones h ! dem))) then
             seguir (condicion_mem ar dem inundacion elev_actual y x ny nx) (\<lambda>c.
             if c then
               seguir (escribir_bool inundacion ny nx True) (\<lambda>_.
               devolver (nuevos_puntos @ [(ny, nx)]))
             else devolver nuevos_puntos)
           else devolver nuevos_puntos) h))"

definition punto_activo_mem ::
  "('e, 'h) aritmetica \<Rightarrow> ref \<Rightarrow> ref \<Rightarrow> real \<Rightarrow> punto \<Rightarrow> punto list \<Rightarrow> ('e, punto list) prog" where
  "punto_activo_mem ar dem inundacion nivel_agua p nuevos_puntos =
     (case p of (y, x) \<Rightarrow>
      seguir (leer_elev dem y x) (\<lambda>e.
      let elev_actual = mas ar e nivel_agua in
      iterar_mem (\<lambda>dy. iterar_mem (\<lambda>dx. vecino_mem ar dem inundacion elev_actual y x dy dx) [-1, 0, 1])
        [-1, 0, 1] nuevos_puntos))"

definition ronda_mem ::
  "('e, 'h) aritmetica \<Rightarrow> ref \<Rightarrow> ref \<Rightarrow> real \<Rightarrow> punto list \<Rightarrow> ('e, punto list) prog" where
  "ronda_mem ar dem inundacion nivel_agua puntos_activos =
     iterar_mem (punto_activo_mem ar dem inundacion nivel_agua) puntos_activos []"

fun bucle_mem ::
  "('e, 'h) aritmetica \<Rightarrow> ref \<Rightarrow> ref \<Rightarrow> real \<Rightarrow> nat \<Rightarrow> punto list \<Rightarrow> ('e, unit) prog" where
  "bucle_mem ar dem inundacion nivel_agua 0 puntos_activos = devolver ()"
| "bucle_mem ar dem inundacion nivel_agua (Suc k) puntos_activos =
     seguir (ronda_mem ar dem inundacion nivel_agua puntos_activos) (\<lambda>nuevos_puntos.
     if nuevos_puntos = [] then devolver ()
     else bucle_mem ar dem inundacion nivel_agua k nuevos_puntos)"

definition marcar_semillas_mem :: "ref \<Rightarrow> punto list \<Rightarrow> ('e, unit) prog" where
  "marcar_semillas_mem inundacion puntos_activos =
     iterar_mem (\<lambda>p _. case p of (y, x) \<Rightarrow> escribir_bool inundacion y x True) puntos_activos ()"

definition propagar_mem ::
  "('e, 'h) aritmetica \<Rightarrow> ref \<Rightarrow> ref \<Rightarrow> real \<Rightarrow> int \<Rightarrow> ('e, ref) prog" where
  "propagar_mem ar dem semillas nivel_agua pasos =
     seguir (\<lambda>h. nuevo_bool (zeros_like (elevaciones h ! dem)) h) (\<lambda>inundacion.
     seguir (\<lambda>h. devolver (np_where (booleanos h ! semillas)) h) (\<lambda>puntos_activos.
     seguir (marcar_semillas_mem inundacion puntos_activos) (\<lambda>_.
     seguir (bucle_mem ar dem inundacion nivel_agua (nat pasos) puntos_activos) (\<lambda>_.
     (\<lambda>h. nuevo_bytes (astype_uint8 (booleanos h ! inundacion)) h)))))"

definition poner :: "ref \<Rightarrow> bool ndarray \<Rightarrow> 'e memoria \<Rightarrow> 'e memoria" where
  "poner i a h = h\<lparr>booleanos := (booleanos h)[i := a]\<rparr>"

definition refina ::
  "ref \<Rightarrow> 'e memoria \<Rightarrow> (error + 'a) \<times> 'e memoria \<Rightarrow> error + (bool ndarray \<times> 'a) \<Rightarrow> bool" where
  "refina i h out vr =
     ((\<exists>a. snd out = poner i a h) \<and>
      vr = (case fst out of Inl e \<Rightarrow> Inl e | Inr v \<Rightarrow> Inr (booleanos (snd out) ! i, v)))"

definition refina0 ::
  "ref \<Rightarrow> 'e memoria \<Rightarrow> (error + unit) \<times> 'e memoria \<Rightarrow> error + bool ndarray \<Rightarrow> bool" where
  "refina0 i h out vr =
     ((\<exists>a. snd out = poner i a h) \<and>
      vr = (case fst out of Inl e \<Rightarrow> Inl e | Inr _ \<Rightarrow> Inr (booleanos (snd out) ! i)))"

section \<open>Properties\<close>

lemma rbind_Inr [simp]: "rbind (Inr v) f = f v"
  by (simp add: rbind_def)

lemma rbind_Inl [simp]: "rbind (Inl e) f = Inl e"
  by (simp add: rbind_def)

lemma rbind_eq_Inr: "rbind m f = Inr r \<longleftrightarrow> (\<exists>v. m = Inr v \<and> f v = Inr r)"
  by (cases m) simp_all

lemma py_index_ok: "idx_ok py_index"
  by (simp add: idx_ok_def py_index_def)

lemma conforme_shape: "conforme a b \<Longrightarrow> shape a = shape b"
  by (cases a; cases b) (auto simp: conforme_def shape_def dest: map_eq_imp_length_eq)

lemma conforme_dentro: "conforme a b \<Longrightarrow> dentro a = dentro b"
  by (simp add: dentro_def conforme_shape)

lemma conforme_length: "conforme a b \<Longrightarrow> length a = length b"
  unfolding conforme_def by (rule map_eq_imp_length_eq)

lemma conforme_row: "conforme a b \<Longrightarrow> i < length b \<Longrightarrow> length (a ! i) = length (b ! i)"
  unfolding conforme_def
  by (metis length_map nth_map)

lemma rectangular_row: "rectangular a \<Longrightarrow> i < length a \<Longrightarrow> length (a ! i) = snd (shape a)"
  by (simp add: rectangular_def list_all_length)

lemma dentro_rows:
  assumes "(y, x) \<in> dentro a"
  shows "0 \<le> y" "nat y < length a" "0 \<le> x" "nat x < snd (shape a)"
  using assms by (auto simp: dentro_def shape_def)

lemma getitem_ok:
  "idx_ok idx \<Longrightarrow> (y, x) \<in> dentro a \<Longrightarrow> getitem idx a y x = Inr (celda a (y, x))"
  by (simp add: getitem_def idx_ok_def dentro_def celda_def)

lemma setitem_ok:
  "idx_ok idx \<Longrightarrow> (y, x) \<in> dentro a \<Longrightarrow>
   setitem idx a y x v = Inr (a[nat y := (a ! nat y)[nat x := v]])"
  by (simp add: setitem_def idx_ok_def dentro_def)

lemma conforme_update:
  assumes c: "conforme a dem"
  shows "conforme (a[i := (a ! i)[j := v]]) dem"
proof (cases "i < length a")
  case True
  then have "(map length a)[i := length (a ! i)] = map length a"
    by (metis list_update_id nth_map)
  then show ?thesis using c by (simp add: conforme_def map_update)
next
  case False
  then show ?thesis using c by (simp add: conforme_def not_less list_update_beyond)
qed

lemma mojadas_update:
  assumes r: "rectangular dem" and c: "conforme a dem" and p: "(y, x) \<in> dentro dem"
  shows "mojadas (a[nat y := (a ! nat y)[nat x := True]]) = insert (y, x) (mojadas a)"
proof -
  let ?a' = "a[nat y := (a ! nat y)[nat x := True]]"
  have c': "conforme ?a' dem" using c by (rule conforme_update)
  have d: "dentro ?a' = dentro dem" "dentro a = dentro dem"
    using c c' by (simp_all add: conforme_dentro)
  have ly: "nat y < length a" using dentro_rows(2)[OF p] conforme_length[OF c] by simp
  have lx: "nat x < length (a ! nat y)"
    using dentro_rows[OF p] conforme_row[OF c, of "nat y"] rectangular_row[OF r, of "nat y"] by simp
  have "celda ?a' q \<longleftrightarrow> q = (y, x) \<or> celda a q" if "q \<in> dentro dem" for q
  proof -
    obtain v u where q: "q = (v, u)" by (cases q)
    have "0 \<le> v" "0 \<le> u" using that dentro_rows[of v u dem] q by auto
    moreover have "0 \<le> y" "0 \<le> x" using dentro_rows[OF p] by auto
    ultimately show ?thesis using ly lx q
      by (auto simp: celda_def nth_list_update split: if_splits)
  qed
  then show ?thesis using p by (auto simp: mojadas_def d)
qed

lemma avance_refl: "conforme (fst st) dem \<Longrightarrow> avance dem {} st st"
  by (simp add: avance_def)

lemma avance_trans:
  "avance dem P st st1 \<Longrightarrow> avance dem Q st1 st2 \<Longrightarrow> avance dem (P \<union> Q) st st2"
  by (auto simp: avance_def)

lemma iterar_avance:
  assumes step: "\<And>a st. a \<in> set as \<Longrightarrow> conforme (fst st) dem \<Longrightarrow>
                   \<exists>st'. f a st = Inr st' \<and> avance dem (P a) st st'"
    and c: "conforme (fst st) dem"
  shows "\<exists>st'. iterar f as st = Inr st' \<and> avance dem (\<Union>a\<in>set as. P a) st st'"
  using step c
proof (induction as arbitrary: st)
  case Nil
  then show ?case by (simp add: avance_refl)
next
  case (Cons a as)
  from Cons.prems(1)[of a st] Cons.prems(2)
  obtain st1 where s1: "f a st = Inr st1" "avance dem (P a) st st1" by auto
  then have c1: "conforme (fst st1) dem" by (simp add: avance_def)
  from Cons.IH[OF _ c1] Cons.prems(1)
  obtain st2 where s2: "iterar f as st1 = Inr st2" "avance dem (\<Union>a\<in>set as. P a) st1 st2"
    by auto
  have "avance dem (P a \<union> (\<Union>a\<in>set as. P a)) st st2"
    using s1(2) s2(2) by (rule avance_trans)
  then show ?case using s1(1) s2(1) by simp
qed

lemma vecino_avance:
  assumes i: "idx_ok idx" and r: "rectangular dem" and c: "conforme (fst st) dem"
    and p: "(y, x) \<in> dentro dem"
  shows "\<exists>st'. vecino ar idx dem (mas ar (celda dem (y, x)) nivel) y x dy dx st = Inr st' \<and>
               avance dem (paso_adm ar dem nivel (y, x) dy dx) st st'"
proof -
  obtain inu nv where st: "st = (inu, nv)" by (cases st)
  have c': "conforme inu dem" using c st by simp
  have d: "dentro inu = dentro dem" using c' by (rule conforme_dentro)
  let ?n = "(y + dy, x + dx)"
  let ?P = "paso_adm ar dem nivel (y, x) dy dx"
  show ?thesis
  proof (cases "\<not> (dy = 0 \<and> dx = 0) \<and> ?n \<in> dentro dem")
    case False
    then have "?P = {}" by (auto simp: paso_adm_def)
    moreover have "vecino ar idx dem (mas ar (celda dem (y, x)) nivel) y x dy dx st = Inr st"
      using False by (auto simp: vecino_def st dentro_def Let_def)
    ultimately show ?thesis using avance_refl[OF c] by auto
  next
    case True
    then have n: "?n \<in> dentro dem" and nz: "\<not> (dy = 0 \<and> dx = 0)" by auto
    have guard: "0 \<le> y + dy \<and> y + dy < int (fst (shape dem)) \<and> 0 \<le> x + dx \<and> x + dx < int (snd (shape dem))"
      using n by (simp add: dentro_def)
    have cond: "condicion ar idx dem (mas ar (celda dem (y, x)) nivel) y x (y + dy) (x + dx) inu =
            Inr (\<not> celda inu ?n \<and> no_supera ar (celda dem ?n) (mas ar (celda dem (y, x)) nivel) \<and>
                 no_cae ar (celda dem ?n) (celda dem (y, x)))"
      using getitem_ok[OF i n] getitem_ok[OF i p] getitem_ok[OF i, of "y + dy" "x + dx" inu] n d
      by (simp add: condicion_def)
    show ?thesis
    proof (cases "\<not> celda inu ?n \<and> no_supera ar (celda dem ?n) (mas ar (celda dem (y, x)) nivel) \<and>
                 no_cae ar (celda dem ?n) (celda dem (y, x))")
      case False
      then have v: "vecino ar idx dem (mas ar (celda dem (y, x)) nivel) y x dy dx st = Inr st"
        using nz guard cond by (auto simp: vecino_def st Let_def)
      have "?P \<subseteq> mojadas inu"
        using False n d by (auto simp: paso_adm_def mojadas_def)
      then have "avance dem ?P st st"
        using c by (auto simp: avance_def st)
      then show ?thesis using v by auto
    next
      case ok: True
      let ?inu' = "inu[nat (y + dy) := (inu ! nat (y + dy))[nat (x + dx) := True]]"
      have v: "vecino ar idx dem (mas ar (celda dem (y, x)) nivel) y x dy dx st = Inr (?inu', nv @ [?n])"
        using nz guard cond ok setitem_ok[OF i, of "y + dy" "x + dx" inu True] n d
        by (simp add: vecino_def st Let_def)
      have P: "?P = {?n}" using ok nz n by (auto simp: paso_adm_def)
      have "?n \<notin> mojadas inu" using ok by (simp add: mojadas_def)
      then have "avance dem ?P st (?inu', nv @ [?n])"
        using mojadas_update[OF r c' n] conforme_update[OF c'] P
        by (auto simp: avance_def st)
      then show ?thesis using v by auto
    qed
  qed
qed

lemma paso_adm_Un:
  "(\<Union>dy\<in>set [-1, 0, 1]. \<Union>dx\<in>set [-1, 0, 1]. paso_adm ar dem nivel c dy dx) = admitidos ar dem nivel c"
proof -
  have "\<bar>a - b\<bar> \<le> 1 \<longleftrightarrow> a = b + (-1) \<or> a = b + 0 \<or> a = b + 1" for a b :: int by auto
  then show ?thesis
    by (auto simp: paso_adm_def admitidos_def prod_eq_iff)
qed

lemma punto_activo_avance:
  assumes i: "idx_ok idx" and r: "rectangular dem" and c: "conforme (fst st) dem"
    and p: "p \<in> dentro dem"
  shows "\<exists>st'. punto_activo ar idx dem nivel p st = Inr st' \<and> avance dem (admitidos ar dem nivel p) st st'"
proof -
  obtain y x where yx: "p = (y, x)" by (cases p)
  have p': "(y, x) \<in> dentro dem" using p yx by simp
  let ?e = "mas ar (celda dem (y, x)) nivel"
  have inner: "\<exists>st'. iterar (\<lambda>dx. vecino ar idx dem ?e y x dy dx) [-1, 0, 1] s = Inr st' \<and>
       avance dem (\<Union>dx\<in>set [-1, 0, 1]. paso_adm ar dem nivel (y, x) dy dx) s st'"
    if "conforme (fst s) dem" for dy s
    by (rule iterar_avance[OF _ that]) (rule vecino_avance[OF i r _ p'])
  have "\<exists>st'. iterar (\<lambda>dy. iterar (\<lambda>dx. vecino ar idx dem ?e y x dy dx) [-1, 0, 1]) [-1, 0, 1] st = Inr st' \<and>
       avance dem (\<Union>dy\<in>set [-1, 0, 1]. \<Union>dx\<in>set [-1, 0, 1]. paso_adm ar dem nivel (y, x) dy dx) st st'"
    by (rule iterar_avance[OF _ c]) (rule inner)
  then show ?thesis
    using getitem_ok[OF i p'] by (simp only: paso_adm_Un punto_activo_def yx Let_def prod.case rbind_Inr)
qed

lemma ronda_avance:
  assumes i: "idx_ok idx" and r: "rectangular dem" and c: "conforme inu dem"
    and a: "set act \<subseteq> dentro dem"
  shows "\<exists>inu' nv. ronda ar idx dem nivel act inu = Inr (inu', nv) \<and> conforme inu' dem \<and>
            mojadas inu' = mojadas inu \<union> frente ar dem nivel (set act) \<and>
            set nv = frente ar dem nivel (set act) - mojadas inu"
proof -
  have "\<exists>st'. iterar (punto_activo ar idx dem nivel) act (inu, []) = Inr st' \<and>
          avance dem (\<Union>p\<in>set act. admitidos ar dem nivel p) (inu, []) st'"
    using a c by (intro iterar_avance punto_activo_avance[OF i r]) auto
  then show ?thesis
    by (auto simp: ronda_def avance_def frente_def)
qed

lemma rectangular_conforme:
  assumes "rectangular a" "rectangular b" "shape a = shape b"
  shows "conforme a b"
proof -
  have l: "length a = length b" using assms(3) by (simp add: shape_def)
  have "length (a ! i) = length (b ! i)" if "i < length a" for i
    using rectangular_row[OF assms(1) that] rectangular_row[OF assms(2)] that l assms(3) by simp
  then show ?thesis unfolding conforme_def using l by (intro nth_equalityI) simp_all
qed

lemma conforme_rectangular: "rectangular b \<Longrightarrow> conforme a b \<Longrightarrow> rectangular a"
  by (metis conforme_length conforme_row conforme_shape list_all_length rectangular_def)

lemma conforme_sym: "conforme a b \<Longrightarrow> conforme b a"
  by (simp add: conforme_def)

lemma conforme_zeros_like: "conforme (zeros_like dem) dem"
  by (simp add: conforme_def zeros_like_def comp_def)

lemma dentro_lengths:
  assumes r: "rectangular a" and p: "(y, x) \<in> dentro a"
  shows "nat y < length a" "nat x < length (a ! nat y)"
  using dentro_rows[OF p] rectangular_row[OF r, of "nat y"] by simp_all

lemma mojadas_zeros_like:
  assumes r: "rectangular dem"
  shows "mojadas (zeros_like dem) = {}"
proof -
  have "\<not> celda (zeros_like dem) p" if "p \<in> dentro dem" for p
  proof -
    obtain y x where p: "p = (y, x)" by (cases p)
    show ?thesis using dentro_lengths[OF r that[unfolded p]]
      by (simp add: celda_def zeros_like_def p)
  qed
  then show ?thesis
    by (auto simp: mojadas_def conforme_dentro[OF conforme_zeros_like])
qed

lemma set_np_where:
  assumes r: "rectangular m"
  shows "set (np_where m) = mojadas m"
proof (rule set_eqI)
  fix p :: punto
  obtain y x where p: "p = (y, x)" by (cases p)
  have "p \<in> set (np_where m) \<longleftrightarrow>
        (\<exists>i<length m. \<exists>j<length (m ! i). m ! i ! j \<and> y = int i \<and> x = int j)"
    by (auto simp: np_where_def p)
  also have "\<dots> \<longleftrightarrow> p \<in> mojadas m"
  proof
    assume "\<exists>i<length m. \<exists>j<length (m ! i). m ! i ! j \<and> y = int i \<and> x = int j"
    then obtain i j where ij: "i < length m" "j < length (m ! i)" "m ! i ! j" "y = int i" "x = int j"
      by blast
    then show "p \<in> mojadas m"
      using rectangular_row[OF r ij(1)]
      by (simp add: mojadas_def dentro_def celda_def p shape_def)
  next
    assume "p \<in> mojadas m"
    then have d: "(y, x) \<in> dentro m" and c: "m ! nat y ! nat x"
      by (simp_all add: mojadas_def p celda_def)
    show "\<exists>i<length m. \<exists>j<length (m ! i). m ! i ! j \<and> y = int i \<and> x = int j"
      using dentro_lengths[OF r d] dentro_rows[OF d] c
      by (intro exI[of _ "nat y"] conjI exI[of _ "nat x"]) simp_all
  qed
  finally show "p \<in> set (np_where m) \<longleftrightarrow> p \<in> mojadas m" .
qed

lemma mojadas_dentro: "mojadas a \<subseteq> dentro a"
  by (auto simp: mojadas_def)

lemma marcar_semillas_ok:
  assumes i: "idx_ok idx" and r: "rectangular dem"
  shows "conforme inu dem \<Longrightarrow> set ps \<subseteq> dentro dem \<Longrightarrow>
         \<exists>inu'. marcar_semillas idx inu ps = Inr inu' \<and> conforme inu' dem \<and>
                mojadas inu' = mojadas inu \<union> set ps"
proof (induction ps arbitrary: inu)
  case Nil
  then show ?case by (simp add: marcar_semillas_def)
next
  case (Cons p ps)
  obtain y x where p: "p = (y, x)" by (cases p)
  let ?inu1 = "inu[nat y := (inu ! nat y)[nat x := True]]"
  have pd: "(y, x) \<in> dentro dem" using Cons.prems(2) p by simp
  have s: "setitem idx inu y x True = Inr ?inu1"
    using setitem_ok[OF i, of y x inu True] pd conforme_dentro[OF Cons.prems(1)] by simp
  have c1: "conforme ?inu1 dem" using Cons.prems(1) by (rule conforme_update)
  have m1: "mojadas ?inu1 = insert (y, x) (mojadas inu)"
    using r Cons.prems(1) pd by (rule mojadas_update)
  from Cons.IH[OF c1] Cons.prems(2)
  obtain inu' where "marcar_semillas idx ?inu1 ps = Inr inu'" "conforme inu' dem"
    "mojadas inu' = mojadas ?inu1 \<union> set ps" by auto
  then show ?case using s m1 by (auto simp: marcar_semillas_def p)
qed

lemma frente_dentro: "frente ar dem nivel A \<subseteq> dentro dem"
  by (auto simp: frente_def admitidos_def)

lemma frente_empty [simp]: "frente ar dem nivel {} = {}"
  by (simp add: frente_def)

lemma frente_Un: "frente ar dem nivel (A \<union> B) = frente ar dem nivel A \<union> frente ar dem nivel B"
  by (auto simp: frente_def)

lemma frente_mono: "A \<subseteq> B \<Longrightarrow> frente ar dem nivel A \<subseteq> frente ar dem nivel B"
  by (auto simp: frente_def)

lemma ronda_conj_fix: "(ronda_conj ar dem nivel ^^ k) (F, {}) = (F, {})"
  by (induction k) (simp_all add: ronda_conj_def)

lemma bucle_conj:
  assumes i: "idx_ok idx" and r: "rectangular dem"
  shows "conforme inu dem \<Longrightarrow> set act \<subseteq> dentro dem \<Longrightarrow>
         \<exists>g. bucle ar idx dem nivel k inu act = Inr g \<and> conforme g dem \<and>
             mojadas g = fst ((ronda_conj ar dem nivel ^^ k) (mojadas inu, set act))"
proof (induction k arbitrary: inu act)
  case 0
  then show ?case by simp
next
  case (Suc k)
  from ronda_avance[OF i r Suc.prems, of ar nivel]
  obtain inu' nv where rd: "ronda ar idx dem nivel act inu = Inr (inu', nv)" "conforme inu' dem"
    "mojadas inu' = mojadas inu \<union> frente ar dem nivel (set act)"
    "set nv = frente ar dem nivel (set act) - mojadas inu" by blast
  have st: "ronda_conj ar dem nivel (mojadas inu, set act) = (mojadas inu', set nv)"
    using rd(3,4) by (simp add: ronda_conj_def)
  have nd: "set nv \<subseteq> dentro dem" using rd(4) frente_dentro[of ar dem nivel "set act"] by auto
  show ?case
  proof (cases "nv = []")
    case True
    then show ?thesis using rd(1,2) st
      by (simp add: funpow_swap1 ronda_conj_fix)
  next
    case False
    from Suc.IH[OF rd(2) nd]
    obtain g where "bucle ar idx dem nivel k inu' nv = Inr g" "conforme g dem"
      "mojadas g = fst ((ronda_conj ar dem nivel ^^ k) (mojadas inu', set nv))" by blast
    then show ?thesis using rd(1) st False
      by (simp add: funpow_swap1)
  qed
qed

lemma ronda_conj_expandir:
  assumes "A \<subseteq> F" "frente ar dem nivel (F - A) \<subseteq> F"
  shows "\<exists>A'. (ronda_conj ar dem nivel ^^ k) (F, A) = ((expandir ar dem nivel ^^ k) F, A') \<and>
              A' \<subseteq> (expandir ar dem nivel ^^ k) F \<and>
              frente ar dem nivel ((expandir ar dem nivel ^^ k) F - A') \<subseteq> (expandir ar dem nivel ^^ k) F"
proof (induction k)
  case 0
  then show ?case using assms by simp
next
  case (Suc k)
  then obtain A' where st: "(ronda_conj ar dem nivel ^^ k) (F, A) = ((expandir ar dem nivel ^^ k) F, A')"
    and sub: "A' \<subseteq> (expandir ar dem nivel ^^ k) F"
    and cl: "frente ar dem nivel ((expandir ar dem nivel ^^ k) F - A') \<subseteq> (expandir ar dem nivel ^^ k) F"
    by blast
  let ?F = "(expandir ar dem nivel ^^ k) F"
  have "?F = (?F - A') \<union> A'" using sub by auto
  then have "frente ar dem nivel ?F = frente ar dem nivel (?F - A') \<union> frente ar dem nivel A'"
    by (metis frente_Un)
  then have e: "?F \<union> frente ar dem nivel A' = expandir ar dem nivel ?F"
    using cl by (auto simp: expandir_def)
  have "(expandir ar dem nivel ?F) - (frente ar dem nivel A' - ?F) = ?F"
    using e by auto
  then have cl': "frente ar dem nivel (expandir ar dem nivel ?F - (frente ar dem nivel A' - ?F)) \<subseteq> expandir ar dem nivel ?F"
    by (simp add: expandir_def)
  have step: "(ronda_conj ar dem nivel ^^ Suc k) (F, A) = (expandir ar dem nivel ?F, frente ar dem nivel A' - ?F)"
    using st e by (simp add: ronda_conj_def)
  have sub': "frente ar dem nivel A' - ?F \<subseteq> expandir ar dem nivel ?F"
    using e by auto
  show ?case
    using step sub' cl' by (intro exI[of _ "frente ar dem nivel A' - ?F"]) simp
qed

lemma ronda_conj_semillas:
  "fst ((ronda_conj ar dem nivel ^^ k) (S, S)) = (expandir ar dem nivel ^^ k) S"
  using ronda_conj_expandir[of S S ar dem nivel k] by auto

lemma propagar_bool_conj:
  assumes i: "idx_ok idx" and r: "rectangular dem" and s: "set (np_where sem) \<subseteq> dentro dem"
  shows "\<exists>g. propagar_bool ar idx dem sem nivel pasos = Inr g \<and> conforme g dem \<and>
             mojadas g = (expandir ar dem nivel ^^ nat pasos) (set (np_where sem))"
proof -
  from marcar_semillas_ok[OF i r conforme_zeros_like s]
  obtain inu where m: "marcar_semillas idx (zeros_like dem) (np_where sem) = Inr inu"
    "conforme inu dem" "mojadas inu = set (np_where sem)"
    by (auto simp: mojadas_zeros_like[OF r])
  from bucle_conj[OF i r m(2) s, of ar nivel "nat pasos"]
  obtain g where "bucle ar idx dem nivel (nat pasos) inu (np_where sem) = Inr g" "conforme g dem"
    "mojadas g = fst ((ronda_conj ar dem nivel ^^ nat pasos) (mojadas inu, set (np_where sem)))"
    by blast
  then show ?thesis using m
    by (simp add: propagar_bool_def ronda_conj_semillas)
qed

lemma ndarray_ext:
  fixes a b :: "bool ndarray"
  assumes r: "rectangular dem" and ca: "conforme a dem" and cb: "conforme b dem"
    and m: "mojadas a = mojadas b"
  shows "a = b"
proof (rule nth_equalityI)
  show l: "length a = length b" using ca cb by (simp add: conforme_length)
  fix i assume i: "i < length a"
  then have id: "i < length dem" using ca by (simp add: conforme_length)
  show "a ! i = b ! i"
  proof (rule nth_equalityI)
    show "length (a ! i) = length (b ! i)"
      using conforme_row[OF ca id] conforme_row[OF cb id] by simp
    fix j assume j: "j < length (a ! i)"
    then have "(int i, int j) \<in> dentro dem"
      using id conforme_row[OF ca id] rectangular_row[OF r id]
      by (simp add: dentro_def shape_def)
    then have "(int i, int j) \<in> mojadas a \<longleftrightarrow> a ! i ! j" "(int i, int j) \<in> mojadas b \<longleftrightarrow> b ! i ! j"
      using conforme_dentro[OF ca] conforme_dentro[OF cb] by (simp_all add: mojadas_def celda_def)
    then show "a ! i ! j = b ! i ! j" using m by simp
  qed
qed

lemma conforme_astype: "conforme (astype_uint8 g) g"
  by (simp add: conforme_def astype_uint8_def comp_def)

lemma conforme_trans: "conforme a b \<Longrightarrow> conforme b c \<Longrightarrow> conforme a c"
  by (simp add: conforme_def)

lemma celda_astype:
  assumes r: "rectangular g" and p: "p \<in> dentro g"
  shows "celda (astype_uint8 g) p = (if celda g p then 1 else 0)"
proof -
  obtain y x where yx: "p = (y, x)" by (cases p)
  show ?thesis using dentro_lengths[OF r p[unfolded yx]]
    by (simp add: celda_def astype_uint8_def yx)
qed

lemma multiply_conforme:
  assumes ra: "rectangular a" and c: "conforme b a"
  shows "multiply a b = Inr (map2 (map2 (*)) a b)"
proof -
  have rb: "rectangular b" using ra c by (rule conforme_rectangular)
  have sh: "shape b = shape a" using c by (rule conforme_shape)
  have l: "length b = length a" using c by (rule conforme_length)
  have row: "map (\<lambda>x. broadcast_get a y x * broadcast_get b y x) [0..<snd (shape a)] =
             map2 (*) (a ! y) (b ! y)" if y: "y < length a" for y
  proof (rule nth_equalityI)
    show "length (map (\<lambda>x. broadcast_get a y x * broadcast_get b y x) [0..<snd (shape a)]) =
          length (map2 (*) (a ! y) (b ! y))"
      using rectangular_row[OF ra y] rectangular_row[OF rb, of y] y l sh by simp
  next
    fix x assume "x < length (map (\<lambda>x. broadcast_get a y x * broadcast_get b y x) [0..<snd (shape a)])"
    then have x: "x < snd (shape a)" by simp
    have y0: "fst (shape a) = 1 \<Longrightarrow> y = 0" using y by (simp add: shape_def)
    have x0: "snd (shape a) = 1 \<Longrightarrow> x = 0" using x by simp
    have g: "broadcast_get a y x = a ! y ! x" "broadcast_get b y x = b ! y ! x"
      using y0 x0 by (auto simp: broadcast_get_def sh)
    show "map (\<lambda>x. broadcast_get a y x * broadcast_get b y x) [0..<snd (shape a)] ! x =
          map2 (*) (a ! y) (b ! y) ! x"
      using x g rectangular_row[OF ra y] rectangular_row[OF rb, of y] y l sh by simp
  qed
  have "map (\<lambda>y. map (\<lambda>x. broadcast_get a y x * broadcast_get b y x) [0..<snd (shape a)]) [0..<length a] =
        map2 (map2 (*)) a b"
    using row l by (intro nth_equalityI) simp_all
  then show ?thesis
    by (simp add: multiply_def broadcast_dim_def sh) (simp add: shape_def)
qed

lemma propagar_bool_0:
  assumes i: "idx_ok idx" and r: "rectangular dem" and rs: "rectangular sem"
    and sh: "shape sem = shape dem" and p: "pasos \<le> 0"
  shows "propagar_bool ar idx dem sem nivel pasos = Inr sem"
proof -
  have c: "conforme sem dem" using rs r sh by (rule rectangular_conforme)
  have s: "set (np_where sem) \<subseteq> dentro dem"
    using set_np_where[OF rs] mojadas_dentro[of sem] conforme_dentro[OF c] by simp
  from propagar_bool_conj[OF i r s, of ar nivel pasos] p
  obtain g where g: "propagar_bool ar idx dem sem nivel pasos = Inr g" "conforme g dem"
    "mojadas g = mojadas sem" by (auto simp: set_np_where[OF rs])
  have "g = sem" using r g(2) c g(3) by (rule ndarray_ext)
  then show ?thesis using g(1) by simp
qed

subsection \<open>C6: no round with a budget of zero\<close>

text \<open>
  C6. With \<open>pasos = 0\<close> no expansion round runs: for grids of one shape, the extent
  (propagation, then product with the basin mask) is exactly the seed mask intersected
  with the basin mask, that is the mask's value where the seed mask is true and 0 elsewhere.
\<close>

theorem extension_sin_rondas:
  assumes "rectangular dem" and "rectangular semillas" and "shape semillas = shape dem"
    and "rectangular cuenca_mask" and "shape cuenca_mask = shape dem"
  shows "extension ar dem semillas cuenca_mask nivel 0 =
           Inr (map2 (map2 (\<lambda>s c. if s then c else 0)) semillas cuenca_mask)"
proof -
  have c: "conforme semillas dem" using assms(2,1,3) by (rule rectangular_conforme)
  have cm: "conforme cuenca_mask dem" using assms(4,1,5) by (rule rectangular_conforme)
  have p: "propagar_inundacion ar dem semillas nivel 0 = Inr (astype_uint8 semillas)"
    using propagar_bool_0[OF py_index_ok assms(1,2,3), of 0 ar nivel]
    by (simp add: propagar_inundacion_def propagar_con_def)
  have ra: "rectangular (astype_uint8 semillas)"
    using assms(2) conforme_astype by (rule conforme_rectangular)
  have cb: "conforme cuenca_mask (astype_uint8 semillas)"
    using cm c conforme_astype[of semillas] by (simp add: conforme_def)
  have "map2 (map2 (*)) (astype_uint8 semillas) cuenca_mask =
        map2 (map2 (\<lambda>s c. if s then c else 0)) semillas cuenca_mask"
    by (auto simp: astype_uint8_def zip_map1 intro!: list.map_cong0)
  then show ?thesis using p multiply_conforme[OF ra cb]
    by (simp add: extension_def)
qed

theorem extension_sin_rondas_witness:
  "rectangular [[0, 0], [0, 0 :: real]] \<and> rectangular [[True, False], [False, True]] \<and>
   shape [[True, False], [False, True]] = shape [[0, 0], [0, 0 :: real]] \<and>
   rectangular [[1, 1], [1, 0 :: 8 word]] \<and>
   shape [[1, 1], [1, 0 :: 8 word]] = shape [[0, 0], [0, 0 :: real]] \<and>
   extension exacta [[0, 0], [0, 0]] [[True, False], [False, True]] [[1, 1], [1, 0]] 1 0 =
     Inr [[1, 0], [0, 0]]"
  using extension_sin_rondas [of "[[0, 0], [0, 0]]" "[[True, False], [False, True]]"
      "[[1, 1], [1, 0]]" exacta 1]
  by (simp add: rectangular_def shape_def)

lemma np_where_nonneg: "p \<in> set (np_where m) \<Longrightarrow> 0 \<le> fst p \<and> 0 \<le> snd p"
  by (auto simp: np_where_def)

lemma np_where_iff:
  "(y, x) \<in> set (np_where m) \<longleftrightarrow>
   (\<exists>i<length m. \<exists>j<length (m ! i). m ! i ! j \<and> y = int i \<and> x = int j)"
  by (auto simp: np_where_def)

lemma setitem_fuera:
  "0 \<le> y \<Longrightarrow> 0 \<le> x \<Longrightarrow> (y, x) \<notin> dentro a \<Longrightarrow> setitem py_index a y x v = Inl IndexError"
  by (auto simp: setitem_def py_index_def dentro_def)

lemma marcar_semillas_fuera:
  "conforme inu dem \<Longrightarrow> \<forall>p\<in>set ps. 0 \<le> fst p \<and> 0 \<le> snd p \<Longrightarrow> \<not> set ps \<subseteq> dentro dem \<Longrightarrow>
   marcar_semillas py_index inu ps = Inl IndexError"
proof (induction ps arbitrary: inu)
  case Nil
  then show ?case by simp
next
  case (Cons p ps)
  obtain y x where p: "p = (y, x)" by (cases p)
  have d: "dentro inu = dentro dem" using Cons.prems(1) by (rule conforme_dentro)
  show ?case
  proof (cases "(y, x) \<in> dentro dem")
    case False
    then have "setitem py_index inu y x True = Inl IndexError"
      using Cons.prems(2) d by (intro setitem_fuera) (simp_all add: p)
    then show ?thesis by (simp add: marcar_semillas_def p)
  next
    case True
    let ?inu1 = "inu[nat y := (inu ! nat y)[nat x := True]]"
    have s: "setitem py_index inu y x True = Inr ?inu1"
      using setitem_ok[OF py_index_ok, of y x inu True] True d by simp
    have c1: "conforme ?inu1 dem" using Cons.prems(1) by (rule conforme_update)
    have "marcar_semillas py_index ?inu1 ps = Inl IndexError"
      using Cons.prems(2,3) True by (intro Cons.IH[OF c1]) (auto simp: p)
    then show ?thesis using s by (simp add: marcar_semillas_def p)
  qed
qed

lemma propagar_bool_fuera:
  assumes "\<not> set (np_where sem) \<subseteq> dentro dem"
  shows "propagar_bool ar py_index dem sem nivel pasos = Inl IndexError"
  using marcar_semillas_fuera[OF conforme_zeros_like _ assms] np_where_nonneg
  by (simp add: propagar_bool_def)

lemma propagar_inundacion_conj:
  assumes r: "rectangular dem" and s: "set (np_where sem) \<subseteq> dentro dem"
  shows "\<exists>g. propagar_bool ar py_index dem sem nivel pasos = Inr g \<and>
             propagar_inundacion ar dem sem nivel pasos = Inr (astype_uint8 g) \<and> conforme g dem \<and>
             mojadas g = (expandir ar dem nivel ^^ nat pasos) (set (np_where sem))"
  using propagar_bool_conj[OF py_index_ok r s, of ar nivel pasos]
  by (auto simp: propagar_inundacion_def propagar_con_def)

subsection \<open>C4: what the function rejects\<close>

text \<open>
  C4, as amended. The function validates neither the shapes, nor \<open>pasos\<close>, nor the level.
  Its only failure is the IndexError of line 264, raised while the seeds are marked and
  before the first round, and it is raised exactly when the seed mask has a true cell
  outside the bounds of the elevation grid. Every other input, whatever the level and
  the budget, gets a result.
\<close>

theorem propagar_error_iff:
  assumes "rectangular dem"
  shows "propagar_inundacion ar dem semillas nivel_agua pasos = Inl e \<longleftrightarrow>
         e = IndexError \<and> \<not> set (np_where semillas) \<subseteq> dentro dem"
proof (cases "set (np_where semillas) \<subseteq> dentro dem")
  case True
  then show ?thesis using propagar_inundacion_conj[OF assms True, of ar nivel_agua pasos] by auto
next
  case False
  then show ?thesis using propagar_bool_fuera[OF False, of ar nivel_agua pasos]
    by (auto simp: propagar_inundacion_def propagar_con_def)
qed

theorem propagar_error_iff_witness:
  "rectangular [[0, 0 :: real]] \<and>
   (propagar_inundacion exacta [[0, 0]] [[False, False, True]] (- 1) 0 = Inl IndexError \<longleftrightarrow>
    IndexError = IndexError \<and> \<not> set (np_where [[False, False, True]]) \<subseteq> dentro [[0, 0 :: real]])"
  using propagar_error_iff [of "[[0, 0]]" exacta "[[False, False, True]]" "- 1" 0 IndexError]
  by (simp add: rectangular_def shape_def)

text \<open>
  C4 as stated fails: a budget of zero, a negative level and a seed mask of another shape
  are each accepted and a grid is returned.
\<close>

theorem sin_validacion_counterexample:
  "propagar_inundacion exacta [[0, 0]] [[True, False]] 1 0 = Inr [[1, 0]] \<and>
   propagar_inundacion exacta [[0, 0]] [[True, False]] (- 1) 5 = Inr [[1, 0]] \<and>
   propagar_inundacion exacta [[0, 0]] [[True]] 1 5 = Inr [[1, 1]]"
  by code_simp

subsection \<open>C10: seeds are flooded unconditionally\<close>

text \<open>
  C10. Whenever the function returns a grid, every true cell of the seed mask is 1 in it,
  whatever the level (negative included), the budget and the elevations: seeds are marked
  at lines 263-264 without any test, and no later step clears a cell.
\<close>

theorem semillas_inundadas:
  assumes r: "rectangular dem"
    and g: "propagar_inundacion ar dem semillas nivel_agua pasos = Inr g"
    and i: "i < length semillas" and j: "j < length (semillas ! i)" and s: "semillas ! i ! j"
  shows "g ! i ! j = 1"
proof -
  have m: "(int i, int j) \<in> set (np_where semillas)"
    using i j s by (auto simp: np_where_iff)
  have sub: "set (np_where semillas) \<subseteq> dentro dem"
  proof (rule ccontr)
    assume "\<not> set (np_where semillas) \<subseteq> dentro dem"
    then have "propagar_bool ar py_index dem semillas nivel_agua pasos = Inl IndexError"
      by (rule propagar_bool_fuera)
    then show False using g by (simp add: propagar_inundacion_def propagar_con_def)
  qed
  from propagar_inundacion_conj[OF r sub, of ar nivel_agua pasos] g
  obtain b where b: "g = astype_uint8 b" "conforme b dem"
    "mojadas b = (expandir ar dem nivel_agua ^^ nat pasos) (set (np_where semillas))" by auto
  have "S \<subseteq> (expandir ar dem nivel_agua ^^ k) S" for S k
    by (induction k) (auto simp: expandir_def)
  then have w: "(int i, int j) \<in> mojadas b" using m b(3) by blast
  have rb: "rectangular b" using r b(2) by (rule conforme_rectangular)
  have "celda (astype_uint8 b) (int i, int j) = 1"
    using celda_astype[OF rb, of "(int i, int j)"] w by (simp add: mojadas_def)
  then show ?thesis by (simp add: b(1) celda_def)
qed

theorem semillas_inundadas_witness:
  "rectangular [[5, 0 :: real]] \<and> propagar_inundacion exacta [[5, 0]] [[True, False]] (- 3) 7 = Inr [[1, 0]] \<and>
   (0::nat) < length [[True, False]] \<and> (0::nat) < length ([[True, False]] ! 0) \<and>
   [[True, False]] ! 0 ! 0 \<and> [[1, 0 :: 8 word]] ! 0 ! 0 = 1"
proof -
  have e: "propagar_inundacion exacta [[5, 0]] [[True, False]] (- 3) 7 = Inr [[1, 0]]"
    by code_simp
  have r: "rectangular [[5, 0 :: real]]" by (simp add: rectangular_def shape_def)
  show ?thesis
    using semillas_inundadas [OF r e, of 0 0] e r by simp
qed

lemma expandir_estable:
  assumes "expandir ar dem nivel F = F"
  shows "(expandir ar dem nivel ^^ k) F = F"
proof (induction k)
  case 0
  show ?case by simp
next
  case (Suc k)
  have "(expandir ar dem nivel ^^ Suc k) F = expandir ar dem nivel ((expandir ar dem nivel ^^ k) F)"
    by simp
  also have "\<dots> = expandir ar dem nivel F" by (simp only: Suc)
  also have "\<dots> = F" by (rule assms)
  finally show ?case .
qed

lemma expandir_estable_desde:
  assumes "(expandir ar dem nivel ^^ Suc k0) S = (expandir ar dem nivel ^^ k0) S" and "k0 \<le> k"
  shows "(expandir ar dem nivel ^^ k) S = (expandir ar dem nivel ^^ k0) S"
proof -
  obtain d where k: "k = d + k0" using assms(2) by (metis le_add_diff_inverse2)
  have f: "expandir ar dem nivel ((expandir ar dem nivel ^^ k0) S) = (expandir ar dem nivel ^^ k0) S"
    using assms(1) by (simp only: funpow.simps o_apply)
  have "(expandir ar dem nivel ^^ (d + k0)) S = (expandir ar dem nivel ^^ d) ((expandir ar dem nivel ^^ k0) S)"
    by (simp only: funpow_add o_apply)
  also have "\<dots> = (expandir ar dem nivel ^^ k0) S" using f by (rule expandir_estable)
  finally show ?thesis by (simp only: k)
qed

lemma propagar_bool_estable:
  assumes i: "idx_ok idx" and r: "rectangular dem" and s: "set (np_where sem) \<subseteq> dentro dem"
    and e: "propagar_bool ar idx dem sem nivel (int (Suc k0)) = propagar_bool ar idx dem sem nivel (int k0)"
    and k: "int k0 \<le> pasos"
  shows "propagar_bool ar idx dem sem nivel pasos = propagar_bool ar idx dem sem nivel (int k0)"
proof -
  from propagar_bool_conj[OF i r s, of ar nivel "int k0"]
  obtain g0 where g0: "propagar_bool ar idx dem sem nivel (int k0) = Inr g0" "conforme g0 dem"
    "mojadas g0 = (expandir ar dem nivel ^^ k0) (set (np_where sem))" by (auto simp only: nat_int)
  from propagar_bool_conj[OF i r s, of ar nivel "int (Suc k0)"]
  obtain g1 where g1: "propagar_bool ar idx dem sem nivel (int (Suc k0)) = Inr g1"
    "mojadas g1 = (expandir ar dem nivel ^^ Suc k0) (set (np_where sem))" by (auto simp only: nat_int)
  have eq: "g1 = g0" using e g0(1) g1(1) by simp
  have st: "(expandir ar dem nivel ^^ Suc k0) (set (np_where sem)) =
            (expandir ar dem nivel ^^ k0) (set (np_where sem))"
    using g1(2) g0(3) unfolding eq by (rule trans[OF sym])
  from propagar_bool_conj[OF i r s, of ar nivel pasos]
  obtain g where g: "propagar_bool ar idx dem sem nivel pasos = Inr g" "conforme g dem"
    "mojadas g = (expandir ar dem nivel ^^ nat pasos) (set (np_where sem))" by auto
  have "k0 \<le> nat pasos" using k by simp
  then have "(expandir ar dem nivel ^^ nat pasos) (set (np_where sem)) =
             (expandir ar dem nivel ^^ k0) (set (np_where sem))"
    by (rule expandir_estable_desde[OF st])
  then have "mojadas g = mojadas g0"
    by (simp only: g(3) g0(3))
  then have "g = g0" using ndarray_ext[OF r g(2) g0(2)] by simp
  then show ?thesis using g(1) g0(1) by simp
qed

lemma sem7_dentro: "set (np_where sem7) \<subseteq> dentro dem7"
  by (simp add: np_where_def sem7_def dem7_def dentro_def shape_def)

lemma rectangular_dem7: "rectangular dem7"
  by (simp add: rectangular_def dem7_def shape_def)

lemma bool7_0: "propagar_bool exacta py_index dem7 sem7 1 0 = Inr sem7"
  by code_simp

lemma bool7_1: "propagar_bool exacta py_index dem7 sem7 1 1 =
  Inr [[False, False, False, False, False], [True, True, False, False, False],
       [True, True, False, False, False], [True, True, False, False, False],
       [False, False, False, False, False]]"
  by code_simp

lemma bool7_2: "propagar_bool exacta py_index dem7 sem7 1 2 =
  Inr [[True, True, True, False, False], [True, True, True, False, False],
       [True, True, True, False, False], [True, True, True, False, False],
       [True, True, True, False, False]]"
  by code_simp

lemma bool7_3: "propagar_bool exacta py_index dem7 sem7 1 3 =
  Inr [[True, True, True, False, False], [True, True, True, False, False],
       [True, True, True, False, False], [True, True, True, False, False],
       [True, True, True, False, False]]"
  by code_simp

lemma bool7_estable:
  assumes "2 \<le> pasos"
  shows "propagar_bool exacta py_index dem7 sem7 1 pasos = propagar_bool exacta py_index dem7 sem7 1 2"
  using propagar_bool_estable[OF py_index_ok rectangular_dem7 sem7_dentro, of exacta 1 2 pasos]
    bool7_2 bool7_3 assms by simp

subsection \<open>C7: the barrier of column 3\<close>

text \<open>
  C7. On the 5 by 5 grid whose column 3 has elevation 100 and whose other cells have
  elevation 0, with the single seed (2, 0) and level 1, the flood fills columns 0 to 2
  with the budget of 100 rounds, and with every budget columns 3 and 4 stay dry.
\<close>

theorem barrera_columna_3:
  "propagar_inundacion exacta dem7 sem7 1 100 =
     Inr [[1, 1, 1, 0, 0], [1, 1, 1, 0, 0], [1, 1, 1, 0, 0], [1, 1, 1, 0, 0], [1, 1, 1, 0, 0]] \<and>
   (\<exists>g. propagar_inundacion exacta dem7 sem7 1 pasos = Inr g \<and> map (drop 3) g = replicate 5 [0, 0])"
proof -
  have a: "propagar_inundacion exacta dem7 sem7 1 100 =
     Inr [[1, 1, 1, 0, 0], [1, 1, 1, 0, 0], [1, 1, 1, 0, 0], [1, 1, 1, 0, 0], [1, 1, 1, 0, 0]]"
    using bool7_estable[of 100] bool7_2
    by (simp add: propagar_inundacion_def propagar_con_def astype_uint8_def)
  have "pasos \<le> 0 \<or> pasos = 1 \<or> 2 \<le> pasos" by arith
  then have b: "\<exists>g. propagar_inundacion exacta dem7 sem7 1 pasos = Inr g \<and> map (drop 3) g = replicate 5 [0, 0]"
  proof (elim disjE)
    assume "pasos \<le> 0"
    then have "propagar_bool exacta py_index dem7 sem7 1 pasos = propagar_bool exacta py_index dem7 sem7 1 0"
      by (simp add: propagar_bool_def)
    then show ?thesis using bool7_0
      by (simp add: propagar_inundacion_def propagar_con_def astype_uint8_def sem7_def numeral_eq_Suc)
  next
    assume "pasos = 1"
    then show ?thesis using bool7_1
      by (simp add: propagar_inundacion_def propagar_con_def astype_uint8_def numeral_eq_Suc)
  next
    assume "2 \<le> pasos"
    then show ?thesis using bool7_estable[of pasos] bool7_2
      by (simp add: propagar_inundacion_def propagar_con_def astype_uint8_def numeral_eq_Suc)
  qed
  show ?thesis using a b by blast
qed

subsection \<open>C8: no access outside the grid\<close>

text \<open>
  C8. For grids of one shape the function returns a grid of that shape and never an
  error, and the result is the same under every index resolution that agrees with numpy
  inside \<open>[0, n)\<close>, whatever it does with a negative index (numpy wraps around) or with
  an index past the end (numpy raises): no access of the run leaves the bounds.
\<close>

theorem sin_acceso_fuera:
  assumes "rectangular dem" and "rectangular semillas" and "shape semillas = shape dem"
    and "idx_ok idx"
  shows "\<exists>g. propagar_inundacion ar dem semillas nivel_agua pasos = Inr g \<and>
             propagar_con ar idx dem semillas nivel_agua pasos = Inr g \<and> shape g = shape dem"
proof -
  have c: "conforme semillas dem" using assms(2,1,3) by (rule rectangular_conforme)
  have s: "set (np_where semillas) \<subseteq> dentro dem"
    using set_np_where[OF assms(2)] mojadas_dentro[of semillas] conforme_dentro[OF c] by simp
  from propagar_bool_conj[OF py_index_ok assms(1) s, of ar nivel_agua pasos]
  obtain g1 where g1: "propagar_bool ar py_index dem semillas nivel_agua pasos = Inr g1"
    "conforme g1 dem"
    "mojadas g1 = (expandir ar dem nivel_agua ^^ nat pasos) (set (np_where semillas))" by auto
  from propagar_bool_conj[OF assms(4,1) s, of ar nivel_agua pasos]
  obtain g2 where g2: "propagar_bool ar idx dem semillas nivel_agua pasos = Inr g2"
    "conforme g2 dem"
    "mojadas g2 = (expandir ar dem nivel_agua ^^ nat pasos) (set (np_where semillas))" by auto
  have "g1 = g2" using ndarray_ext[OF assms(1) g1(2) g2(2)] g1(3) g2(3) by simp
  moreover have "shape (astype_uint8 g1) = shape dem"
    using conforme_shape[OF conforme_astype, of g1] conforme_shape[OF g1(2)] by simp
  ultimately show ?thesis using g1(1) g2(1)
    by (simp add: propagar_inundacion_def propagar_con_def)
qed

theorem sin_acceso_fuera_witness:
  "rectangular [[0, 0], [0, 0 :: real]] \<and> rectangular [[True, False], [False, False]] \<and>
   shape [[True, False], [False, False]] = shape [[0, 0], [0, 0 :: real]] \<and>
   idx_ok (\<lambda>n i. if 0 \<le> i \<and> i < int n then Inr (nat i) else Inl IndexError) \<and>
   (\<exists>g. propagar_inundacion exacta [[0, 0], [0, 0]] [[True, False], [False, False]] 1 100 = Inr g \<and>
        propagar_con exacta (\<lambda>n i. if 0 \<le> i \<and> i < int n then Inr (nat i) else Inl IndexError)
          [[0, 0], [0, 0]] [[True, False], [False, False]] 1 100 = Inr g \<and>
        shape g = shape [[0, 0], [0, 0 :: real]])"
proof -
  have h1: "rectangular [[0, 0], [0, 0 :: real]]"
    by (simp add: rectangular_def shape_def)
  have h2: "rectangular [[True, False], [False, False]]"
    by (simp add: rectangular_def shape_def)
  have h3: "shape [[True, False], [False, False]] = shape [[0, 0], [0, 0 :: real]]"
    by (simp add: shape_def)
  have h4: "idx_ok (\<lambda>n i. if 0 \<le> i \<and> i < int n then Inr (nat i) else Inl IndexError)"
    by (simp add: idx_ok_def)
  show ?thesis
    by (intro conjI h1 h2 h3 h4 sin_acceso_fuera [OF h1 h2 h3 h4])
qed

lemma monotona_exacta: "monotona exacta"
  by (simp add: monotona_def exacta_def)

lemma monotona_redondeada:
  assumes "mono fl"
  shows "monotona (redondeada fl)"
proof -
  have "v \<le> fl (e + nivel2)" if "nivel1 \<le> nivel2" "v \<le> fl (e + nivel1)" for v e nivel1 nivel2 :: real
  proof -
    have "fl (e + nivel1) \<le> fl (e + nivel2)" using that(1) by (intro monoD[OF assms]) simp
    then show ?thesis using that(2) by (rule order_trans[rotated])
  qed
  then show ?thesis by (simp add: monotona_def redondeada_def)
qed

text \<open>
  Rounding changes what floods. With sums rounded to the nearest integer, the head
  \<open>0 + 1/2\<close> becomes 1 and a neighbour of elevation 1 is admitted; without rounding it is
  not. The same happens in float64 near \<open>1e16\<close>, where the spacing of the format is 2.
\<close>

lemma redondeo_admite:
  "propagar_inundacion (redondeada (\<lambda>x. of_int (round x))) [[0, 1]] [[True, False]] (1 / 2) 100 =
     Inr [[1, 1]] \<and>
   propagar_inundacion exacta [[0, 1]] [[True, False]] (1 / 2) 100 = Inr [[1, 0]]"
  by code_simp

lemma admitidos_mono_nivel:
  assumes "monotona ar" and "nivel1 \<le> nivel2"
  shows "admitidos ar dem nivel1 c \<subseteq> admitidos ar dem nivel2 c"
  using assms unfolding monotona_def admitidos_def by blast

lemma expandir_mono:
  assumes "monotona ar" and "nivel1 \<le> nivel2" and "F \<subseteq> G"
  shows "expandir ar dem nivel1 F \<subseteq> expandir ar dem nivel2 G"
  using assms(3) admitidos_mono_nivel[OF assms(1,2), of dem]
  by (fastforce simp: expandir_def frente_def)

lemma expandir_funpow_mono:
  assumes "monotona ar" and "nivel1 \<le> nivel2" and "F \<subseteq> G"
  shows "(expandir ar dem nivel1 ^^ k) F \<subseteq> (expandir ar dem nivel2 ^^ k) G"
proof (induction k)
  case 0
  show ?case using assms(3) by simp
next
  case (Suc k)
  show ?case using expandir_mono[OF assms(1,2) Suc] by simp
qed

lemma expandir_funpow_mono_conj:
  assumes "F \<subseteq> G"
  shows "(expandir ar dem nivel ^^ k) F \<subseteq> (expandir ar dem nivel ^^ k) G"
proof (induction k)
  case 0
  show ?case using assms by simp
next
  case (Suc k)
  then show ?case by (fastforce simp: expandir_def frente_def)
qed

lemma expandir_funpow_incl: "F \<subseteq> (expandir ar dem nivel ^^ k) F"
proof (induction k)
  case 0
  show ?case by simp
next
  case (Suc k)
  then show ?case by (auto simp: expandir_def)
qed

lemma expandir_dentro: "F \<subseteq> dentro dem \<Longrightarrow> expandir ar dem nivel F \<subseteq> dentro dem"
  using frente_dentro[of ar dem nivel F] by (auto simp: expandir_def)

lemma expandir_funpow_dentro:
  "F \<subseteq> dentro dem \<Longrightarrow> (expandir ar dem nivel ^^ k) F \<subseteq> dentro dem"
proof (induction k)
  case 0
  then show ?case by simp
next
  case (Suc k)
  show ?case using expandir_dentro[OF Suc.IH[OF Suc.prems]] by simp
qed

lemma semillas_dentro:
  assumes "rectangular dem" and "rectangular sem" and "shape sem = shape dem"
  shows "set (np_where sem) \<subseteq> dentro dem" "set (np_where sem) = mojadas sem" "conforme sem dem"
proof -
  show c: "conforme sem dem" using assms(2,1,3) by (rule rectangular_conforme)
  show "set (np_where sem) = mojadas sem" using assms(2) by (rule set_np_where)
  then show "set (np_where sem) \<subseteq> dentro dem"
    using mojadas_dentro[of sem] conforme_dentro[OF c] by simp
qed

lemma celda_map2:
  assumes r: "rectangular dem" and ca: "conforme a dem" and cb: "conforme b dem"
    and p: "p \<in> dentro dem"
  shows "celda (map2 (map2 f) a b) p = f (celda a p) (celda b p)"
proof -
  obtain y x where yx: "p = (y, x)" by (cases p)
  have ly: "nat y < length dem" and lx: "nat x < length (dem ! nat y)"
    using dentro_lengths[OF r p[unfolded yx]] by simp_all
  show ?thesis
    using ly lx conforme_length[OF ca] conforme_length[OF cb]
      conforme_row[OF ca ly] conforme_row[OF cb ly]
    by (simp add: celda_def yx)
qed

lemma conforme_map2:
  assumes ca: "conforme a dem" and cb: "conforme b dem"
  shows "conforme (map2 (map2 f) a b) dem"
proof -
  have l: "length a = length dem" "length b = length dem"
    using ca cb by (simp_all add: conforme_length)
  have "length (map2 (map2 f) a b ! i) = length (dem ! i)" if "i < length dem" for i
    using that l conforme_row[OF ca that] conforme_row[OF cb that] by simp
  then show ?thesis unfolding conforme_def using l
    by (intro nth_equalityI) simp_all
qed

lemma extension_celdas:
  assumes r: "rectangular dem" and s: "set (np_where sem) \<subseteq> dentro dem"
    and c: "conforme cuenca dem"
  shows "\<exists>e. extension ar dem sem cuenca nivel pasos = Inr e \<and> conforme e dem \<and>
             (\<forall>p\<in>dentro dem. celda e p =
                (if p \<in> (expandir ar dem nivel ^^ nat pasos) (set (np_where sem))
                 then celda cuenca p else 0))"
proof -
  from propagar_inundacion_conj[OF r s, of ar nivel pasos]
  obtain g where g: "propagar_inundacion ar dem sem nivel pasos = Inr (astype_uint8 g)"
    "conforme g dem"
    "mojadas g = (expandir ar dem nivel ^^ nat pasos) (set (np_where sem))" by blast
  have rg: "rectangular g" using r g(2) by (rule conforme_rectangular)
  have ca: "conforme (astype_uint8 g) dem"
    using conforme_astype g(2) by (rule conforme_trans)
  have ra: "rectangular (astype_uint8 g)" using r ca by (rule conforme_rectangular)
  have cb: "conforme cuenca (astype_uint8 g)"
    using c conforme_sym[OF ca] by (rule conforme_trans)
  let ?e = "map2 (map2 (*)) (astype_uint8 g) cuenca"
  have e: "extension ar dem sem cuenca nivel pasos = Inr ?e"
    using g(1) multiply_conforme[OF ra cb] by (simp add: extension_def)
  have "celda ?e p = (if p \<in> mojadas g then celda cuenca p else 0)" if p: "p \<in> dentro dem" for p
    using celda_map2[OF r ca c p, of "(*)"] celda_astype[OF rg, of p] p conforme_dentro[OF g(2)]
    by (simp add: mojadas_def)
  then show ?thesis using e conforme_map2[OF ca c, of "(*)"] g(3) by auto
qed

subsection \<open>C2: the extent grows with the level\<close>




subsection \<open>C3: the order of the frontier does not matter\<close>

text \<open>
  C3. The function is a function of its arguments: it reads no other state, so equal
  inputs give equal grids. The order in which a round visits its active points does not
  matter either: two lists of active points with the same elements give, from the same
  array, the same array after one round, the same set of new points, and the same final
  grid after any number of rounds. The new points of a round are exactly the cells that
  were dry when the round began and pass the bounds and elevation tests from some active
  point, so whether a cell is admitted in a round is decided by the state at its start.
\<close>

theorem orden_indiferente:
  assumes "rectangular dem" and "rectangular inundacion" and "shape inundacion = shape dem"
    and "set puntos_activos \<subseteq> dentro dem" and "set otros = set puntos_activos"
  shows "bucle ar py_index dem nivel_agua k inundacion otros =
           bucle ar py_index dem nivel_agua k inundacion puntos_activos \<and>
         (\<exists>inu nuevos nuevos'.
            ronda ar py_index dem nivel_agua puntos_activos inundacion = Inr (inu, nuevos) \<and>
            ronda ar py_index dem nivel_agua otros inundacion = Inr (inu, nuevos') \<and>
            set nuevos' = set nuevos \<and>
            set nuevos = {n. n \<notin> mojadas inundacion \<and>
                             (\<exists>c\<in>set puntos_activos. n \<in> admitidos ar dem nivel_agua c)})"
proof -
  have c: "conforme inundacion dem" using assms(2,1,3) by (rule rectangular_conforme)
  have a': "set otros \<subseteq> dentro dem" using assms(4,5) by simp
  from bucle_conj[OF py_index_ok assms(1) c assms(4), of ar nivel_agua k]
  obtain g where g: "bucle ar py_index dem nivel_agua k inundacion puntos_activos = Inr g"
    "conforme g dem"
    "mojadas g = fst ((ronda_conj ar dem nivel_agua ^^ k) (mojadas inundacion, set puntos_activos))"
    by blast
  from bucle_conj[OF py_index_ok assms(1) c a', of ar nivel_agua k]
  obtain g' where g': "bucle ar py_index dem nivel_agua k inundacion otros = Inr g'"
    "conforme g' dem"
    "mojadas g' = fst ((ronda_conj ar dem nivel_agua ^^ k) (mojadas inundacion, set otros))"
    by blast
  have "mojadas g' = mojadas g" by (simp only: g(3) g'(3) assms(5))
  then have "g' = g" by (rule ndarray_ext[OF assms(1) g'(2) g(2)])
  then have b: "bucle ar py_index dem nivel_agua k inundacion otros =
           bucle ar py_index dem nivel_agua k inundacion puntos_activos"
    by (simp only: g(1) g'(1))
  from ronda_avance[OF py_index_ok assms(1) c assms(4), of ar nivel_agua]
  obtain inu nv where r1: "ronda ar py_index dem nivel_agua puntos_activos inundacion = Inr (inu, nv)"
    "conforme inu dem"
    "mojadas inu = mojadas inundacion \<union> frente ar dem nivel_agua (set puntos_activos)"
    "set nv = frente ar dem nivel_agua (set puntos_activos) - mojadas inundacion" by blast
  from ronda_avance[OF py_index_ok assms(1) c a', of ar nivel_agua]
  obtain inu' nv' where r2: "ronda ar py_index dem nivel_agua otros inundacion = Inr (inu', nv')"
    "conforme inu' dem"
    "mojadas inu' = mojadas inundacion \<union> frente ar dem nivel_agua (set otros)"
    "set nv' = frente ar dem nivel_agua (set otros) - mojadas inundacion" by blast
  have "mojadas inu' = mojadas inu" by (simp only: r1(3) r2(3) assms(5))
  then have i: "inu' = inu" by (rule ndarray_ext[OF assms(1) r2(2) r1(2)])
  have n: "set nv' = set nv" by (simp only: r1(4) r2(4) assms(5))
  have f: "set nv = {n. n \<notin> mojadas inundacion \<and>
                        (\<exists>c\<in>set puntos_activos. n \<in> admitidos ar dem nivel_agua c)}"
    unfolding r1(4) by (auto simp: frente_def)
  show ?thesis using b r1(1) r2(1) i n f by blast
qed

theorem orden_indiferente_witness:
  "rectangular [[0, 0, 0], [0, 0, 0 :: real]] \<and>
   rectangular [[True, False, False], [True, False, False]] \<and>
   shape [[True, False, False], [True, False, False]] = shape [[0, 0, 0], [0, 0, 0 :: real]] \<and>
   set [(0, 0), (1, 0)] \<subseteq> dentro [[0, 0, 0], [0, 0, 0 :: real]] \<and>
   set [(1, 0), (0, 0)] = set [(0, 0), (1 :: int, 0 :: int)] \<and>
   bucle exacta py_index [[0, 0, 0], [0, 0, 0]] 1 5 [[True, False, False], [True, False, False]]
       [(1, 0), (0, 0)] =
     bucle exacta py_index [[0, 0, 0], [0, 0, 0]] 1 5 [[True, False, False], [True, False, False]]
       [(0, 0), (1, 0)]"
proof -
  have h1: "rectangular [[0, 0, 0], [0, 0, 0 :: real]]" by (simp add: rectangular_def shape_def)
  have h2: "rectangular [[True, False, False], [True, False, False]]"
    by (simp add: rectangular_def shape_def)
  have h3: "shape [[True, False, False], [True, False, False]] = shape [[0, 0, 0], [0, 0, 0 :: real]]"
    by (simp add: shape_def)
  have h4: "set [(0, 0), (1, 0)] \<subseteq> dentro [[0, 0, 0], [0, 0, 0 :: real]]"
    by (simp add: dentro_def shape_def)
  have h5: "set [(1, 0), (0, 0)] = set [(0, 0), (1 :: int, 0 :: int)]" by auto
  show ?thesis
    using orden_indiferente [OF h1 h2 h3 h4 h5, of exacta 1 5]
    by (intro conjI h1 h2 h3 h4 h5) blast
qed

lemma inundada_tras_iff:
  assumes r: "rectangular dem" and s: "set (np_where sem) \<subseteq> dentro dem" and n: "n \<in> dentro dem"
  shows "inundada_tras ar dem sem nivel i n \<longleftrightarrow> n \<in> (expandir ar dem nivel ^^ i) (set (np_where sem))"
proof -
  from propagar_inundacion_conj[OF r s, of ar nivel "int i"]
  obtain g where g: "propagar_inundacion ar dem sem nivel (int i) = Inr (astype_uint8 g)"
    "conforme g dem" "mojadas g = (expandir ar dem nivel ^^ i) (set (np_where sem))"
    by (auto simp only: nat_int)
  have rg: "rectangular g" using r g(2) by (rule conforme_rectangular)
  have d: "dentro g = dentro dem" using g(2) by (rule conforme_dentro)
  have "celda (astype_uint8 g) n \<noteq> 0 \<longleftrightarrow> n \<in> mojadas g"
    using celda_astype[OF rg, of n] n d by (simp add: mojadas_def)
  then show ?thesis by (simp add: inundada_tras_def g(1) g(3))
qed

lemma cadena_append:
  "cadena ar dem sem nivel i c (ns @ [n]) \<longleftrightarrow>
   cadena ar dem sem nivel i c ns \<and> paso_cadena ar dem sem nivel (i + length ns) (last (c # ns)) n"
  by (induction ns arbitrary: i c) auto

lemma frontera_paso:
  "snd (ronda_conj ar dem nivel st) = frente ar dem nivel (snd st) - fst st"
  "fst (ronda_conj ar dem nivel st) = fst st \<union> frente ar dem nivel (snd st)"
  by (simp_all add: ronda_conj_def)

lemma frontera_cadena:
  assumes r: "rectangular dem" and s: "set (np_where sem) \<subseteq> dentro dem"
  shows "n \<in> snd ((ronda_conj ar dem nivel ^^ k) (set (np_where sem), set (np_where sem))) \<Longrightarrow>
         \<exists>c ns. c \<in> set (np_where sem) \<and> length ns = k \<and> cadena ar dem sem nivel 0 c ns \<and>
                last (c # ns) = n"
proof (induction k arbitrary: n)
  case 0
  then show ?case by (intro exI[of _ n] exI[of _ "[]"]) simp
next
  case (Suc k)
  let ?S = "set (np_where sem)"
  let ?st = "(ronda_conj ar dem nivel ^^ k) (?S, ?S)"
  have f: "fst ?st = (expandir ar dem nivel ^^ k) ?S" by (rule ronda_conj_semillas)
  from Suc.prems have "n \<in> frente ar dem nivel (snd ?st) - fst ?st"
    by (simp add: frontera_paso)
  then obtain c' where c': "c' \<in> snd ?st" "n \<in> admitidos ar dem nivel c'"
    and nf: "n \<notin> (expandir ar dem nivel ^^ k) ?S"
    by (auto simp: frente_def f)
  from Suc.IH[OF c'(1)]
  obtain c ns where ch: "c \<in> ?S" "length ns = k" "cadena ar dem sem nivel 0 c ns" "last (c # ns) = c'"
    by blast
  have nd: "n \<in> dentro dem" using c'(2) by (simp add: admitidos_def)
  have "paso_cadena ar dem sem nivel k c' n"
    using c'(2) nf inundada_tras_iff[OF r s nd, of ar nivel k]
    by (simp add: paso_cadena_def admitidos_def)
  then have "cadena ar dem sem nivel 0 c (ns @ [n])"
    using ch by (simp add: cadena_append)
  then show ?case using ch(1,2)
    by (intro exI[of _ c] exI[of _ "ns @ [n]"]) simp
qed

lemma expandir_fronteras:
  "n \<in> (expandir ar dem nivel ^^ k) S \<Longrightarrow>
   \<exists>j\<le>k. n \<in> snd ((ronda_conj ar dem nivel ^^ j) (S, S))"
proof (induction k)
  case 0
  then show ?case by simp
next
  case (Suc k)
  let ?st = "(ronda_conj ar dem nivel ^^ k) (S, S)"
  have f: "fst ?st = (expandir ar dem nivel ^^ k) S" by (rule ronda_conj_semillas)
  have "(expandir ar dem nivel ^^ Suc k) S = fst ((ronda_conj ar dem nivel ^^ Suc k) (S, S))"
    by (simp only: ronda_conj_semillas)
  also have "\<dots> = fst ?st \<union> frente ar dem nivel (snd ?st)"
    by (simp add: frontera_paso)
  finally have "n \<in> (expandir ar dem nivel ^^ k) S \<or> n \<in> frente ar dem nivel (snd ?st) - fst ?st"
    using Suc.prems f by auto
  then show ?case
  proof
    assume "n \<in> (expandir ar dem nivel ^^ k) S"
    from Suc.IH[OF this] show ?thesis using le_Suc_eq by blast
  next
    assume "n \<in> frente ar dem nivel (snd ?st) - fst ?st"
    then have "n \<in> snd ((ronda_conj ar dem nivel ^^ Suc k) (S, S))"
      by (simp add: frontera_paso)
    then show ?thesis by blast
  qed
qed

subsection \<open>C1: every flooded cell is a seed or is reached by a chain of admissions\<close>

text \<open>
  C1. For grids of one shape and every arithmetic of the elevations, every non-zero cell
  \<open>n\<close> of the extent lies in the basin mask, and there are a seed \<open>c\<close> and a chain \<open>ns\<close>
  of at most \<open>pasos\<close> cells that leads from \<open>c\<close> to \<open>n\<close> (the empty chain when \<open>n\<close> is a
  seed itself): each cell of the chain is one of the 8 neighbours of the cell before it,
  lies inside the grid, was not yet flooded when the rounds before its own had run, and
  passes the two elevation tests against the cell before it, the head being the sum of
  that cell's elevation and the level as the array's element type computes it.
\<close>

theorem extension_alcanzable:
  assumes "rectangular dem" and "rectangular semillas" and "shape semillas = shape dem"
    and "rectangular cuenca_mask" and "shape cuenca_mask = shape dem"
    and "extension ar dem semillas cuenca_mask nivel pasos = Inr e"
    and "n \<in> dentro dem" and "celda e n \<noteq> 0"
  shows "celda cuenca_mask n \<noteq> 0 \<and>
         (\<exists>c ns. c \<in> dentro dem \<and> celda semillas c \<and> length ns \<le> nat pasos \<and>
                 cadena ar dem semillas nivel 0 c ns \<and> last (c # ns) = n)"
proof -
  let ?S = "set (np_where semillas)"
  have s: "?S \<subseteq> dentro dem" and sm: "?S = mojadas semillas"
    using semillas_dentro[OF assms(1,2,3)] by simp_all
  have c: "conforme cuenca_mask dem" using assms(4,1,5) by (rule rectangular_conforme)
  from extension_celdas[OF assms(1) s c, of ar nivel pasos] assms(6)
  have "celda e n = (if n \<in> (expandir ar dem nivel ^^ nat pasos) ?S then celda cuenca_mask n else 0)"
    using assms(7) by auto
  then have m: "celda cuenca_mask n \<noteq> 0" and x: "n \<in> (expandir ar dem nivel ^^ nat pasos) ?S"
    using assms(8) by (auto split: if_splits)
  from expandir_fronteras[OF x]
  obtain j where j: "j \<le> nat pasos" "n \<in> snd ((ronda_conj ar dem nivel ^^ j) (?S, ?S))" by blast
  from frontera_cadena[OF assms(1) s j(2)]
  obtain c ns where ch: "c \<in> ?S" "length ns = j" "cadena ar dem semillas nivel 0 c ns"
    "last (c # ns) = n" by blast
  have "c \<in> dentro dem" "celda semillas c"
    using ch(1) s sm by (auto simp: mojadas_def)
  then show ?thesis using m ch j(1) by blast
qed

theorem extension_alcanzable_witness:
  "rectangular [[0, 1, 1 :: real]] \<and> rectangular [[True, False, False]] \<and>
   shape [[True, False, False]] = shape [[0, 1, 1 :: real]] \<and>
   rectangular [[1, 1, 1 :: 8 word]] \<and> shape [[1, 1, 1 :: 8 word]] = shape [[0, 1, 1 :: real]] \<and>
   extension (redondeada (\<lambda>x. of_int (round x))) [[0, 1, 1]] [[True, False, False]] [[1, 1, 1]]
     (1 / 2) 100 = Inr [[1, 1, 1]] \<and>
   (0, 2) \<in> dentro [[0, 1, 1 :: real]] \<and> celda [[1, 1, 1 :: 8 word]] (0, 2) \<noteq> 0 \<and>
   celda [[1, 1, 1 :: 8 word]] (0, 2) \<noteq> 0 \<and>
   (\<exists>c ns. c \<in> dentro [[0, 1, 1 :: real]] \<and> celda [[True, False, False]] c \<and>
           length ns \<le> nat 100 \<and>
           cadena (redondeada (\<lambda>x. of_int (round x))) [[0, 1, 1]] [[True, False, False]] (1 / 2) 0
             c ns \<and>
           last (c # ns) = (0, 2))"
proof -
  have h1: "rectangular [[0, 1, 1 :: real]]" by (simp add: rectangular_def shape_def)
  have h2: "rectangular [[True, False, False]]" by (simp add: rectangular_def shape_def)
  have h3: "shape [[True, False, False]] = shape [[0, 1, 1 :: real]]" by (simp add: shape_def)
  have h4: "rectangular [[1, 1, 1 :: 8 word]]" by (simp add: rectangular_def shape_def)
  have h5: "shape [[1, 1, 1 :: 8 word]] = shape [[0, 1, 1 :: real]]" by (simp add: shape_def)
  have h6: "extension (redondeada (\<lambda>x. of_int (round x))) [[0, 1, 1]] [[True, False, False]]
              [[1, 1, 1]] (1 / 2) 100 = Inr [[1, 1, 1]]"
    by code_simp
  have h7: "(0, 2) \<in> dentro [[0, 1, 1 :: real]]" by (simp add: dentro_def shape_def)
  have h8: "celda [[1, 1, 1 :: 8 word]] (0, 2) \<noteq> 0" by (simp add: celda_def)
  show ?thesis
    using extension_alcanzable [OF h1 h2 h3 h4 h5 h6 h7 h8]
    by (intro conjI h1 h2 h3 h4 h5 h6 h7 h8) blast+
qed

lemma ndarray_ext_celda:
  assumes r: "rectangular dem" and ca: "conforme a dem" and cb: "conforme b dem"
    and m: "\<forall>p\<in>dentro dem. celda a p = celda b p"
  shows "a = b"
proof (rule nth_equalityI)
  show l: "length a = length b" using ca cb by (simp add: conforme_length)
  fix i assume i: "i < length a"
  then have id: "i < length dem" using ca by (simp add: conforme_length)
  show "a ! i = b ! i"
  proof (rule nth_equalityI)
    show "length (a ! i) = length (b ! i)"
      using conforme_row[OF ca id] conforme_row[OF cb id] by simp
    fix j assume j: "j < length (a ! i)"
    then have "(int i, int j) \<in> dentro dem"
      using id conforme_row[OF ca id] rectangular_row[OF r id]
      by (simp add: dentro_def shape_def)
    then have "celda a (int i, int j) = celda b (int i, int j)" using m by blast
    then show "a ! i ! j = b ! i ! j" by (simp add: celda_def)
  qed
qed

lemma extension_unica:
  assumes r: "rectangular dem" and s: "set (np_where sem) \<subseteq> dentro dem"
    and s': "set (np_where sem') \<subseteq> dentro dem" and c: "conforme cuenca dem"
    and e: "(expandir ar dem nivel ^^ nat pasos) (set (np_where sem')) =
            (expandir ar dem nivel ^^ nat pasos) (set (np_where sem))"
  shows "extension ar dem sem' cuenca nivel pasos = extension ar dem sem cuenca nivel pasos"
proof -
  from extension_celdas[OF r s c, of ar nivel pasos]
  obtain e1 where e1: "extension ar dem sem cuenca nivel pasos = Inr e1" "conforme e1 dem"
    "\<forall>p\<in>dentro dem. celda e1 p =
       (if p \<in> (expandir ar dem nivel ^^ nat pasos) (set (np_where sem)) then celda cuenca p else 0)"
    by blast
  from extension_celdas[OF r s' c, of ar nivel pasos]
  obtain e2 where e2: "extension ar dem sem' cuenca nivel pasos = Inr e2" "conforme e2 dem"
    "\<forall>p\<in>dentro dem. celda e2 p =
       (if p \<in> (expandir ar dem nivel ^^ nat pasos) (set (np_where sem')) then celda cuenca p else 0)"
    by blast
  have "\<forall>p\<in>dentro dem. celda e2 p = celda e1 p"
    using e1(3) e2(3) unfolding e by simp
  then have "e2 = e1" by (rule ndarray_ext_celda[OF r e2(2) e1(2)])
  then show ?thesis by (simp only: e1(1) e2(1))
qed

lemma convergencia_conj:
  assumes r: "rectangular dem" and s: "set (np_where sem) \<subseteq> dentro dem"
    and p: "0 \<le> pasos"
    and e: "propagar_inundacion ar dem sem nivel (pasos + 1) = propagar_inundacion ar dem sem nivel pasos"
  shows "expandir ar dem nivel ((expandir ar dem nivel ^^ nat pasos) (set (np_where sem))) =
         (expandir ar dem nivel ^^ nat pasos) (set (np_where sem))"
proof -
  let ?S = "set (np_where sem)"
  from propagar_inundacion_conj[OF r s, of ar nivel pasos]
  obtain g where g: "propagar_inundacion ar dem sem nivel pasos = Inr (astype_uint8 g)"
    "conforme g dem" "mojadas g = (expandir ar dem nivel ^^ nat pasos) ?S" by blast
  from propagar_inundacion_conj[OF r s, of ar nivel "pasos + 1"]
  obtain g' where g': "propagar_inundacion ar dem sem nivel (pasos + 1) = Inr (astype_uint8 g')"
    "conforme g' dem" "mojadas g' = (expandir ar dem nivel ^^ nat (pasos + 1)) ?S" by blast
  have a: "astype_uint8 g' = astype_uint8 g" using e g(1) g'(1) by simp
  have rg: "rectangular g" "rectangular g'"
    using r g(2) g'(2) by (auto intro: conforme_rectangular)
  have d: "dentro g = dentro dem" "dentro g' = dentro dem"
    using g(2) g'(2) by (simp_all add: conforme_dentro)
  have "celda g' q = celda g q" if "q \<in> dentro dem" for q
    using celda_astype[OF rg(1), of q] celda_astype[OF rg(2), of q] that d a
    by (simp split: if_splits)
  then have m: "mojadas g' = mojadas g" by (auto simp: mojadas_def d)
  have n: "nat (pasos + 1) = Suc (nat pasos)" using p by simp
  have "(expandir ar dem nivel ^^ Suc (nat pasos)) ?S = mojadas g'"
    by (simp only: g'(3) n)
  also have "\<dots> = mojadas g" by (rule m)
  also have "\<dots> = (expandir ar dem nivel ^^ nat pasos) ?S" by (rule g(3))
  finally show ?thesis by (simp only: funpow.simps o_apply)
qed

subsection \<open>C5: reusing the extent of a lower level as seeds\<close>

text \<open>
  C5, as amended. For grids of one shape and levels \<open>nivel1 < nivel2\<close>, when the
  arithmetic of the elevations is monotone in the level and the run at \<open>nivel2\<close> from the
  original seeds has converged within the budget (one more round changes nothing), the run
  at \<open>nivel2\<close> from the original seeds joined with the extent of \<open>nivel1\<close> returns the same
  extent as the run at \<open>nivel2\<close> from the original seeds.
\<close>

theorem reuso_de_semillas:
  assumes "rectangular dem" and "rectangular semillas" and "shape semillas = shape dem"
    and "rectangular cuenca_mask" and "shape cuenca_mask = shape dem"
    and "nivel1 < nivel2" and "0 \<le> pasos"
    and "propagar_inundacion ar dem semillas nivel2 (pasos + 1) =
         propagar_inundacion ar dem semillas nivel2 pasos"
    and "extension ar dem semillas cuenca_mask nivel1 pasos = Inr e1"
    and "monotona ar"
  shows "extension ar dem (reusar_semillas semillas e1) cuenca_mask nivel2 pasos =
         extension ar dem semillas cuenca_mask nivel2 pasos"
proof -
  let ?S = "set (np_where semillas)"
  let ?sem' = "reusar_semillas semillas e1"
  let ?S' = "set (np_where ?sem')"
  let ?k = "nat pasos"
  have s: "?S \<subseteq> dentro dem" and sm: "?S = mojadas semillas" and cs: "conforme semillas dem"
    using semillas_dentro[OF assms(1,2,3)] by simp_all
  have c: "conforme cuenca_mask dem" using assms(4,1,5) by (rule rectangular_conforme)
  from extension_celdas[OF assms(1) s c, of ar nivel1 pasos] assms(9)
  have e1: "conforme e1 dem"
    "\<forall>p\<in>dentro dem. celda e1 p =
       (if p \<in> (expandir ar dem nivel1 ^^ ?k) ?S then celda cuenca_mask p else 0)"
    by auto
  have cs': "conforme ?sem' dem"
    unfolding reusar_semillas_def using cs e1(1) by (rule conforme_map2)
  have rs': "rectangular ?sem'" using assms(1) cs' by (rule conforme_rectangular)
  have sm': "?S' = mojadas ?sem'" using rs' by (rule set_np_where)
  have d': "dentro ?sem' = dentro dem" using cs' by (rule conforme_dentro)
  have s': "?S' \<subseteq> dentro dem" using sm' mojadas_dentro[of ?sem'] d' by simp
  have cel: "celda ?sem' p \<longleftrightarrow> celda semillas p \<or> celda e1 p \<noteq> 0" if "p \<in> dentro dem" for p
    unfolding reusar_semillas_def
    by (rule celda_map2[OF assms(1) cs e1(1) that, where f = "\<lambda>s v. s \<or> v \<noteq> 0"])
  have le: "(expandir ar dem nivel1 ^^ ?k) ?S \<subseteq> (expandir ar dem nivel2 ^^ ?k) ?S"
    using assms(6) by (intro expandir_funpow_mono[OF assms(10)]) simp_all
  have lo: "?S \<subseteq> ?S'"
    using cel s by (auto simp: sm sm' mojadas_def d' conforme_dentro[OF cs])
  have hi: "?S' \<subseteq> (expandir ar dem nivel2 ^^ ?k) ?S"
  proof
    fix p assume p: "p \<in> ?S'"
    then have pd: "p \<in> dentro dem" using s' by blast
    from p have "celda semillas p \<or> celda e1 p \<noteq> 0"
      using cel[OF pd] by (simp add: sm' mojadas_def)
    then show "p \<in> (expandir ar dem nivel2 ^^ ?k) ?S"
    proof
      assume "celda semillas p"
      then have "p \<in> ?S" using pd by (simp add: sm mojadas_def conforme_dentro[OF cs])
      then show ?thesis using expandir_funpow_incl[where F = ?S and dem = dem and nivel = nivel2 and k = ?k] by blast
    next
      assume "celda e1 p \<noteq> 0"
      then have "p \<in> (expandir ar dem nivel1 ^^ ?k) ?S"
        using e1(2) pd by (auto split: if_splits)
      then show ?thesis using le by blast
    qed
  qed
  have fixp: "expandir ar dem nivel2 ((expandir ar dem nivel2 ^^ ?k) ?S) = (expandir ar dem nivel2 ^^ ?k) ?S"
    using assms(1) s assms(7,8) by (rule convergencia_conj)
  have "(expandir ar dem nivel2 ^^ ?k) ?S' \<subseteq> (expandir ar dem nivel2 ^^ ?k) ((expandir ar dem nivel2 ^^ ?k) ?S)"
    using hi by (rule expandir_funpow_mono_conj)
  also have "\<dots> = (expandir ar dem nivel2 ^^ ?k) ?S"
    using fixp by (rule expandir_estable)
  finally have up: "(expandir ar dem nivel2 ^^ ?k) ?S' \<subseteq> (expandir ar dem nivel2 ^^ ?k) ?S" .
  have dn: "(expandir ar dem nivel2 ^^ ?k) ?S \<subseteq> (expandir ar dem nivel2 ^^ ?k) ?S'"
    using lo by (rule expandir_funpow_mono_conj)
  have "(expandir ar dem nivel2 ^^ ?k) ?S' = (expandir ar dem nivel2 ^^ ?k) ?S"
    using up dn by (rule subset_antisym)
  then show ?thesis
    by (rule extension_unica[OF assms(1) s s' c])
qed

theorem reuso_de_semillas_witness:
  "rectangular [[0, 0, 0 :: real]] \<and> rectangular [[True, False, False]] \<and>
   shape [[True, False, False]] = shape [[0, 0, 0 :: real]] \<and>
   rectangular [[1, 1, 1 :: 8 word]] \<and> shape [[1, 1, 1 :: 8 word]] = shape [[0, 0, 0 :: real]] \<and>
   (1 :: real) < 2 \<and> (0 :: int) \<le> 2 \<and>
   propagar_inundacion exacta [[0, 0, 0]] [[True, False, False]] 2 (2 + 1) =
     propagar_inundacion exacta [[0, 0, 0]] [[True, False, False]] 2 2 \<and>
   extension exacta [[0, 0, 0]] [[True, False, False]] [[1, 1, 1]] 1 2 = Inr [[1, 1, 1]] \<and>
   monotona exacta \<and>
   extension exacta [[0, 0, 0]] (reusar_semillas [[True, False, False]] [[1, 1, 1]]) [[1, 1, 1]] 2 2 =
     extension exacta [[0, 0, 0]] [[True, False, False]] [[1, 1, 1]] 2 2"
proof -
  have h1: "rectangular [[0, 0, 0 :: real]]" by (simp add: rectangular_def shape_def)
  have h2: "rectangular [[True, False, False]]" by (simp add: rectangular_def shape_def)
  have h3: "shape [[True, False, False]] = shape [[0, 0, 0 :: real]]" by (simp add: shape_def)
  have h4: "rectangular [[1, 1, 1 :: 8 word]]" by (simp add: rectangular_def shape_def)
  have h5: "shape [[1, 1, 1 :: 8 word]] = shape [[0, 0, 0 :: real]]" by (simp add: shape_def)
  have h6: "(1 :: real) < 2" by simp
  have h7: "(0 :: int) \<le> 2" by simp
  have h8: "propagar_inundacion exacta [[0, 0, 0]] [[True, False, False]] 2 (2 + 1) =
     propagar_inundacion exacta [[0, 0, 0]] [[True, False, False]] 2 2"
    by code_simp
  have h9: "extension exacta [[0, 0, 0]] [[True, False, False]] [[1, 1, 1]] 1 2 = Inr [[1, 1, 1]]"
    by code_simp
  have h10: "monotona exacta" by (simp add: monotona_def exacta_def)
  show ?thesis
    by (intro conjI h1 h2 h3 h4 h5 h6 h7 h8 h9 h10
        reuso_de_semillas [OF h1 h2 h3 h4 h5 h6 h7 h8 h9 h10])
qed

text \<open>
  C5 as stated fails in two ways. When the budget ends the run before it converges: on a
  flat row of three cells with one round, the extent of level 1 is two cells; from the
  seeds joined with it, level 2 floods the third cell, and from the original seed it does
  not. And when the sum wraps around: on a grid of uint8 with elevations 255, level 0
  floods the neighbour of the seed, while the run at level 1 from the original seed, which
  has converged, leaves it dry.
\<close>

theorem reuso_de_semillas_counterexample:
  "extension exacta [[0, 0, 0]] [[True, False, False]] [[1, 1, 1]] 1 1 = Inr [[1, 1, 0]] \<and>
   extension exacta [[0, 0, 0]] (reusar_semillas [[True, False, False]] [[1, 1, 0]]) [[1, 1, 1]] 2 1 =
     Inr [[1, 1, 1]] \<and>
   extension exacta [[0, 0, 0]] [[True, False, False]] [[1, 1, 1]] 2 1 = Inr [[1, 1, 0]] \<and>
   extension uint8_entero [[255, 255]] [[True, False]] [[1, 1]] 0 100 = Inr [[1, 1]] \<and>
   propagar_inundacion uint8_entero [[255, 255]] [[True, False]] 1 (100 + 1) =
     propagar_inundacion uint8_entero [[255, 255]] [[True, False]] 1 100 \<and>
   extension uint8_entero [[255, 255]] (reusar_semillas [[True, False]] [[1, 1]]) [[1, 1]] 1 100 =
     Inr [[1, 1]] \<and>
   extension uint8_entero [[255, 255]] [[True, False]] [[1, 1]] 1 100 = Inr [[1, 0]]"
  by code_simp

lemma seguir_devolver [simp]: "seguir (devolver v) f h = f v h"
  by (simp add: seguir_def devolver_def)

lemma poner_simps [simp]:
  "elevaciones (poner i a h) = elevaciones h"
  "bytes (poner i a h) = bytes h"
  "length (booleanos (poner i a h)) = length (booleanos h)"
  "i < length (booleanos h) \<Longrightarrow> booleanos (poner i a h) ! i = a"
  "poner i a (poner i b h) = poner i a h"
  by (simp_all add: poner_def)

lemma poner_mismo [simp]: "poner i (booleanos h ! i) h = h"
  by (simp add: poner_def)

lemma refina_poner:
  assumes "refina i (poner i a h) out vr"
  shows "refina i h out vr"
  using assms by (auto simp: refina_def)

lemma condicion_mem_refina:
  "condicion_mem ar d i elev y x ny nx h =
     (condicion ar py_index (elevaciones h ! d) elev y x ny nx (booleanos h ! i), h)"
  by (auto simp: condicion_mem_def condicion_def seguir_def devolver_def leer_bool_def
      leer_elev_def rbind_def split: sum.splits)

lemma vecino_mem_refina:
  assumes "i < length (booleanos h)"
  shows "refina i h (vecino_mem ar d i elev y x dy dx nv h)
           (vecino ar py_index (elevaciones h ! d) elev y x dy dx (booleanos h ! i, nv))"
  using assms
  by (auto simp: vecino_mem_def vecino_def Let_def refina_def seguir_def devolver_def
      condicion_mem_refina escribir_bool_def rbind_def poner_def
      split: sum.splits intro: exI[of _ "booleanos h ! i"])

lemma refina0_poner:
  assumes "refina0 i (poner i a h) out vr"
  shows "refina0 i h out vr"
  using assms by (auto simp: refina0_def)

lemma refina_par:
  "refina i h (r, h1) vr \<longleftrightarrow>
   (\<exists>a. h1 = poner i a h) \<and>
   vr = (case r of Inl e \<Rightarrow> Inl e | Inr v \<Rightarrow> Inr (booleanos h1 ! i, v))"
  by (cases r) (simp_all add: refina_def)

lemma refina0_par:
  "refina0 i h (r, h1) vr \<longleftrightarrow>
   (\<exists>a. h1 = poner i a h) \<and>
   vr = (case r of Inl e \<Rightarrow> Inl e | Inr v \<Rightarrow> Inr (booleanos h1 ! i))"
  by (cases r) (simp_all add: refina0_def)

lemma iterar_mem_refina:
  assumes step: "\<And>a nv h. i < length (booleanos h) \<Longrightarrow> elevaciones h = R \<Longrightarrow>
                   refina i h (f a nv h) (g a (booleanos h ! i, nv))"
  shows "i < length (booleanos h) \<Longrightarrow> elevaciones h = R \<Longrightarrow>
         refina i h (iterar_mem f as nv h) (iterar g as (booleanos h ! i, nv))"
proof (induction as arbitrary: nv h)
  case Nil
  then show ?case
    by (auto simp: refina_def devolver_def intro: exI[of _ "booleanos h ! i"])
next
  case (Cons a as)
  obtain r h1 where o: "f a nv h = (r, h1)" by (cases "f a nv h")
  from step[OF Cons.prems, of a nv] o
  obtain a1 where h1: "h1 = poner i a1 h"
    and g: "g a (booleanos h ! i, nv) = (case r of Inl e \<Rightarrow> Inl e | Inr v \<Rightarrow> Inr (booleanos h1 ! i, v))"
    by (auto simp: refina_par)
  show ?case
  proof (cases r)
    case (Inl e)
    then show ?thesis using o g h1
      by (auto simp: refina_def seguir_def)
  next
    case (Inr v)
    have l: "i < length (booleanos h1)" "elevaciones h1 = R" using Cons.prems h1 by simp_all
    have "refina i h1 (iterar_mem f as v h1) (iterar g as (booleanos h1 ! i, v))"
      using l by (rule Cons.IH)
    then have "refina i h (iterar_mem f as v h1) (iterar g as (booleanos h1 ! i, v))"
      unfolding h1 by (rule refina_poner)
    then show ?thesis using o g Inr by (simp add: seguir_def)
  qed
qed

lemma punto_activo_mem_refina:
  fixes h :: "'e memoria"
  assumes l: "i < length (booleanos h)"
  shows "refina i h (punto_activo_mem ar d i nivel p nv h)
           (punto_activo ar py_index (elevaciones h ! d) nivel p (booleanos h ! i, nv))"
proof -
  obtain y x where p: "p = (y, x)" by (cases p)
  show ?thesis
  proof (cases "getitem py_index (elevaciones h ! d) y x")
    case (Inl e)
    then show ?thesis
      by (auto simp: punto_activo_mem_def punto_activo_def p seguir_def leer_elev_def refina_def
          intro: exI[of _ "booleanos h ! i"])
  next
    case (Inr e)
    have v: "refina i h'' (vecino_mem ar d i (mas ar e nivel) y x dy dx nv'' h'')
              (vecino ar py_index (elevaciones h ! d) (mas ar e nivel) y x dy dx (booleanos h'' ! i, nv''))"
      if "i < length (booleanos h'')" "elevaciones h'' = elevaciones h" for dy dx nv'' and h'' :: "'e memoria"
      using vecino_mem_refina[OF that(1), of ar d "mas ar e nivel" y x dy dx nv''] that(2) by simp
    have inner: "refina i h' (iterar_mem (\<lambda>dx. vecino_mem ar d i (mas ar e nivel) y x dy dx) [-1, 0, 1] nv' h')
            (iterar (\<lambda>dx. vecino ar py_index (elevaciones h ! d) (mas ar e nivel) y x dy dx) [-1, 0, 1]
               (booleanos h' ! i, nv'))"
      if a: "i < length (booleanos h')" and b: "elevaciones h' = elevaciones h" for dy nv' and h' :: "'e memoria"
    proof (rule iterar_mem_refina[where R = "elevaciones h"])
      show "i < length (booleanos h')" by (rule a)
      show "elevaciones h' = elevaciones h" by (rule b)
    next
      fix dx nv'' and h'' :: "'e memoria"
      assume "i < length (booleanos h'')" "elevaciones h'' = elevaciones h"
      then show "refina i h'' (vecino_mem ar d i (mas ar e nivel) y x dy dx nv'' h'')
              (vecino ar py_index (elevaciones h ! d) (mas ar e nivel) y x dy dx (booleanos h'' ! i, nv''))"
        by (rule v)
    qed
    have "refina i h
            (iterar_mem (\<lambda>dy. iterar_mem (\<lambda>dx. vecino_mem ar d i (mas ar e nivel) y x dy dx) [-1, 0, 1])
               [-1, 0, 1] nv h)
            (iterar (\<lambda>dy. iterar (\<lambda>dx. vecino ar py_index (elevaciones h ! d) (mas ar e nivel) y x dy dx) [-1, 0, 1])
               [-1, 0, 1] (booleanos h ! i, nv))"
    proof (rule iterar_mem_refina[where R = "elevaciones h"])
      show "i < length (booleanos h)" by (rule l)
      show "elevaciones h = elevaciones h" by simp
    next
      fix dy nv' and h' :: "'e memoria"
      assume "i < length (booleanos h')" "elevaciones h' = elevaciones h"
      then show "refina i h' (iterar_mem (\<lambda>dx. vecino_mem ar d i (mas ar e nivel) y x dy dx) [-1, 0, 1] nv' h')
            (iterar (\<lambda>dx. vecino ar py_index (elevaciones h ! d) (mas ar e nivel) y x dy dx) [-1, 0, 1]
               (booleanos h' ! i, nv'))"
        by (rule inner)
    qed
    then show ?thesis using Inr
      by (simp add: punto_activo_mem_def punto_activo_def p seguir_def leer_elev_def Let_def)
  qed
qed

lemma ronda_mem_refina:
  fixes h :: "'e memoria"
  assumes l: "i < length (booleanos h)"
  shows "refina i h (ronda_mem ar d i nivel act h)
           (ronda ar py_index (elevaciones h ! d) nivel act (booleanos h ! i))"
proof -
  have "refina i h' (punto_activo_mem ar d i nivel p nv h')
          (punto_activo ar py_index (elevaciones h ! d) nivel p (booleanos h' ! i, nv))"
    if "i < length (booleanos h')" "elevaciones h' = elevaciones h" for p nv and h' :: "'e memoria"
    using punto_activo_mem_refina[OF that(1), of ar d nivel p nv] that(2) by simp
  then show ?thesis unfolding ronda_mem_def ronda_def using l
    by (intro iterar_mem_refina[where R = "elevaciones h"]) simp_all
qed

lemma bucle_mem_refina:
  "i < length (booleanos h) \<Longrightarrow>
   refina0 i h (bucle_mem ar d i nivel k act h)
     (bucle ar py_index (elevaciones h ! d) nivel k (booleanos h ! i) act)"
proof (induction k arbitrary: act h)
  case 0
  then show ?case
    by (auto simp: refina0_def devolver_def intro: exI[of _ "booleanos h ! i"])
next
  case (Suc k)
  obtain r h1 where o: "ronda_mem ar d i nivel act h = (r, h1)" by (cases "ronda_mem ar d i nivel act h")
  from ronda_mem_refina[OF Suc.prems, of ar d nivel act] o
  obtain a1 where h1: "h1 = poner i a1 h"
    and g: "ronda ar py_index (elevaciones h ! d) nivel act (booleanos h ! i) =
              (case r of Inl e \<Rightarrow> Inl e | Inr v \<Rightarrow> Inr (booleanos h1 ! i, v))"
    by (auto simp: refina_par)
  show ?case
  proof (cases r)
    case (Inl e)
    then show ?thesis using o g h1 by (auto simp: refina0_def seguir_def)
  next
    case (Inr nv)
    have l: "i < length (booleanos h1)" using Suc.prems h1 by simp
    show ?thesis
    proof (cases "nv = []")
      case True
      then show ?thesis using o g h1 Inr
        by (auto simp: refina0_def seguir_def devolver_def)
    next
      case False
      have "refina0 i h1 (bucle_mem ar d i nivel k nv h1)
              (bucle ar py_index (elevaciones h1 ! d) nivel k (booleanos h1 ! i) nv)"
        using l by (rule Suc.IH)
      then have "refina0 i h (bucle_mem ar d i nivel k nv h1)
              (bucle ar py_index (elevaciones h ! d) nivel k (booleanos h1 ! i) nv)"
        unfolding h1 using refina0_poner[of i a1 h] by simp
      then show ?thesis using o g Inr False by (simp add: seguir_def)
    qed
  qed
qed

lemma marcar_semillas_mem_refina:
  "i < length (booleanos h) \<Longrightarrow>
   refina0 i h (marcar_semillas_mem i ps h) (marcar_semillas py_index (booleanos h ! i) ps)"
proof (induction ps arbitrary: h)
  case Nil
  then show ?case
    by (auto simp: refina0_def marcar_semillas_mem_def marcar_semillas_def devolver_def
        intro: exI[of _ "booleanos h ! i"])
next
  case (Cons p ps)
  obtain y x where p: "p = (y, x)" by (cases p)
  show ?case
  proof (cases "setitem py_index (booleanos h ! i) y x True")
    case (Inl e)
    then show ?thesis
      by (auto simp: refina0_def marcar_semillas_mem_def marcar_semillas_def p seguir_def
          escribir_bool_def intro: exI[of _ "booleanos h ! i"])
  next
    case (Inr a)
    let ?h1 = "poner i a h"
    have l: "i < length (booleanos ?h1)" using Cons.prems by simp
    have "refina0 i ?h1 (marcar_semillas_mem i ps ?h1)
            (marcar_semillas py_index (booleanos ?h1 ! i) ps)"
      using l by (rule Cons.IH)
    then have "refina0 i h (marcar_semillas_mem i ps ?h1) (marcar_semillas py_index a ps)"
      using refina0_poner[of i a h] Cons.prems by simp
    then show ?thesis using Inr
      by (simp add: marcar_semillas_mem_def marcar_semillas_def p seguir_def escribir_bool_def
          poner_def)
  qed
qed

subsection \<open>C9: the inputs are left as they were\<close>

text \<open>
  C9. On a store of arrays, a call leaves every array that existed before the call as
  it was, whether it returns or raises: the elevation grid, the seed mask and every array
  of bytes (the basin mask among them). When the call returns, the result is a reference
  that did not exist before, to an array whose content is the grid that the function
  computes on the values of its arguments; when it raises, it raises the same error.
\<close>

theorem entradas_intactas:
  fixes h :: "'e memoria"
  assumes "semillas < length (booleanos h)"
  shows "case propagar_mem ar dem semillas nivel_agua pasos h of (r, h') \<Rightarrow>
           elevaciones h' = elevaciones h \<and>
           take (length (booleanos h)) (booleanos h') = booleanos h \<and>
           take (length (bytes h)) (bytes h') = bytes h \<and>
           (case r of
              Inl e \<Rightarrow>
                propagar_inundacion ar (elevaciones h ! dem) (booleanos h ! semillas) nivel_agua pasos = Inl e
            | Inr res \<Rightarrow>
                res = length (bytes h) \<and> length (bytes h') = Suc res \<and>
                propagar_inundacion ar (elevaciones h ! dem) (booleanos h ! semillas) nivel_agua pasos =
                  Inr (bytes h' ! res))"
proof -
  let ?i = "length (booleanos h)"
  let ?z = "zeros_like (elevaciones h ! dem)"
  let ?h1 = "h\<lparr>booleanos := booleanos h @ [?z]\<rparr>"
  let ?ps = "np_where (booleanos h ! semillas)"
  let ?D = "elevaciones h ! dem"
  have l1: "?i < length (booleanos ?h1)" by simp
  have z: "booleanos ?h1 ! ?i = ?z" by simp
  have sem: "booleanos ?h1 ! semillas = booleanos h ! semillas"
    using assms by (simp add: nth_append)
  have fr: "elevaciones (poner ?i a ?h1) = elevaciones h"
    "take ?i (booleanos (poner ?i a ?h1)) = booleanos h"
    "bytes (poner ?i a ?h1) = bytes h" for a
    by (simp_all add: poner_def)
  obtain r1 h2 where o1: "marcar_semillas_mem ?i ?ps ?h1 = (r1, h2)"
    by (cases "marcar_semillas_mem ?i ?ps ?h1")
  from marcar_semillas_mem_refina[OF l1, of ?ps] o1 z
  obtain a where h2: "h2 = poner ?i a ?h1"
    and m: "marcar_semillas py_index ?z ?ps =
              (case r1 of Inl e \<Rightarrow> Inl e | Inr v \<Rightarrow> Inr (booleanos h2 ! ?i))"
    by (auto simp: refina0_par)
  have start: "propagar_mem ar dem semillas nivel_agua pasos h =
        seguir (marcar_semillas_mem ?i ?ps) (\<lambda>_.
        seguir (bucle_mem ar dem ?i nivel_agua (nat pasos) ?ps) (\<lambda>_.
        (\<lambda>h. nuevo_bytes (astype_uint8 (booleanos h ! ?i)) h))) ?h1"
  proof -
    have s1: "seguir (\<lambda>h. nuevo_bool (zeros_like (elevaciones h ! dem)) h) F h = F ?i ?h1" for F :: "ref \<Rightarrow> ('e, ref) prog"
      by (simp add: seguir_def nuevo_bool_def)
    have s2: "seguir (\<lambda>h. devolver (np_where (booleanos h ! semillas)) h) G ?h1 = G ?ps ?h1"
      for G :: "punto list \<Rightarrow> ('e, ref) prog"
      using sem by (simp add: seguir_def devolver_def)
    show ?thesis
      unfolding propagar_mem_def by (simp only: s1 s2)
  qed
  show ?thesis
  proof (cases r1)
    case (Inl e)
    have "propagar_mem ar dem semillas nivel_agua pasos h = (Inl e, h2)"
      using start o1 Inl by (simp add: seguir_def)
    moreover have "propagar_inundacion ar ?D (booleanos h ! semillas) nivel_agua pasos = Inl e"
      using m Inl by (simp add: propagar_inundacion_def propagar_con_def propagar_bool_def)
    ultimately show ?thesis using fr[of a] h2 by simp
  next
    case (Inr u)
    have l2: "?i < length (booleanos h2)" using h2 by simp
    have m2: "marcar_semillas py_index ?z ?ps = Inr (booleanos h2 ! ?i)" using m Inr by simp
    obtain r2 h3 where o2: "bucle_mem ar dem ?i nivel_agua (nat pasos) ?ps h2 = (r2, h3)"
      by (cases "bucle_mem ar dem ?i nivel_agua (nat pasos) ?ps h2")
    from bucle_mem_refina[OF l2, of ar dem nivel_agua "nat pasos" ?ps] o2
    obtain b where h3: "h3 = poner ?i b h2"
      and bu: "bucle ar py_index (elevaciones h2 ! dem) nivel_agua (nat pasos) (booleanos h2 ! ?i) ?ps =
                 (case r2 of Inl e \<Rightarrow> Inl e | Inr v \<Rightarrow> Inr (booleanos h3 ! ?i))"
      by (auto simp: refina0_par)
    have h3': "h3 = poner ?i b ?h1" using h3 h2 by simp
    have rd: "elevaciones h2 ! dem = ?D" using h2 by simp
    have pb: "propagar_bool ar py_index ?D (booleanos h ! semillas) nivel_agua pasos =
                (case r2 of Inl e \<Rightarrow> Inl e | Inr v \<Rightarrow> Inr (booleanos h3 ! ?i))"
      using m2 bu rd by (simp add: propagar_bool_def)
    show ?thesis
    proof (cases r2)
      case (Inl e)
      have "propagar_mem ar dem semillas nivel_agua pasos h = (Inl e, h3)"
        using start o1 o2 \<open>r1 = Inr u\<close> Inl by (simp add: seguir_def)
      moreover have "propagar_inundacion ar ?D (booleanos h ! semillas) nivel_agua pasos = Inl e"
        using pb Inl by (simp add: propagar_inundacion_def propagar_con_def)
      ultimately show ?thesis using fr[of b] h3' by simp
    next
      case (Inr u2)
      let ?res = "astype_uint8 (booleanos h3 ! ?i)"
      have "propagar_mem ar dem semillas nivel_agua pasos h =
              (Inr (length (bytes h3)), h3\<lparr>bytes := bytes h3 @ [?res]\<rparr>)"
        using start o1 o2 \<open>r1 = Inr u\<close> Inr by (simp add: seguir_def nuevo_bytes_def)
      moreover have "propagar_inundacion ar ?D (booleanos h ! semillas) nivel_agua pasos = Inr ?res"
        using pb Inr by (simp add: propagar_inundacion_def propagar_con_def)
      ultimately show ?thesis using fr[of b] h3' by simp
    qed
  qed
qed

theorem entradas_intactas_witness:
  "(0::nat) < length (booleanos \<lparr>elevaciones = [[[0, 0]]], booleanos = [[[True, False]]], bytes = [[[1, 0]]]\<rparr>) \<and>
   propagar_mem exacta 0 0 1 5 \<lparr>elevaciones = [[[0, 0]]], booleanos = [[[True, False]]], bytes = [[[1, 0]]]\<rparr> =
     (Inr 1, \<lparr>elevaciones = [[[0, 0]]], booleanos = [[[True, False]], [[True, True]]],
               bytes = [[[1, 0]], [[1, 1]]]\<rparr>) \<and>
   propagar_inundacion exacta [[0, 0]] [[True, False]] 1 5 = Inr [[1, 1]]"
proof -
  let ?h = "\<lparr>elevaciones = [[[0, 0 :: real]]], booleanos = [[[True, False]]], bytes = [[[1, 0 :: 8 word]]]\<rparr>"
  have h: "(0::nat) < length (booleanos ?h)" by simp
  have e: "propagar_mem exacta 0 0 1 5 ?h =
     (Inr 1, \<lparr>elevaciones = [[[0, 0]]], booleanos = [[[True, False]], [[True, True]]],
               bytes = [[[1, 0]], [[1, 1]]]\<rparr>)"
    by code_simp
  show ?thesis
    using entradas_intactas [OF h, of exacta 0 1 5] h e by simp
qed

end
